theory Spec2Isabelle
  imports Main
begin

section \<open>Exceptions and outcomes\<close>

text \<open>
  Both programs are Python loops that mutate state and leave by exceptions. An exception
  is a value of \<open>exn\<close>; a computation that can raise returns an \<open>outcome\<close>, which
  keeps the state reached when the exception was raised (the files written so far stay
  written, and a \<open>finally\<close> block sees the variables as they were).
\<close>

datatype exn =
    IncompleteSeries
  | TesterAlreadyTested
  | JSONDecodeError
  | UnicodeDecodeError
  | ConnectionError
  | KeyError
  | TypeError
  | IsADirectoryError
  | FileNotFoundError
  | KeyboardInterrupt
  | OtherException

datatype 's outcome = Done 's | Raised exn 's

text \<open>
  What \<open>requests.get(url)\<close> followed by \<open>json.loads(r.content.decode('utf-8'))\<close>
  can do: \<open>requests.get\<close> raises (connection failure, timeout), the body is not UTF-8,
  the body is not JSON, or a value is decoded.
\<close>

datatype 'a reply = NetFail | NotUtf8 | NotJson | Decoded 'a

section \<open>pw\_poller.py\<close>

subsection \<open>Time\<close>

text \<open>
  A \<open>datetime\<close> is an integer count of microseconds (the resolution of Python's
  \<open>datetime\<close>) on one clock: the host's local time is taken to be UTC, so that
  \<open>fromtimestamp\<close>, \<open>timestamp\<close> and \<open>utcnow\<close> agree.
\<close>

definition hours :: "int \<Rightarrow> int" where
  "hours n = n * 3600000000"

definition minutes :: "int \<Rightarrow> int" where
  "minutes n = n * 60000000"

subsection \<open>State\<close>

text \<open>
  The JSON object of \<open>poller.state\<close>. \<open>init_state_from_disk\<close> copies whichever keys
  the object has, so each key is optional. \<open>seen_series\<close> is a JSON list written from a
  Python set and read back into a set: it is modelled by the set of its elements.
\<close>

datatype state_file = Malformed | Stored "int option" "int set option"

record poller =
  st_last_poll :: int
  st_seen_series :: "int set"
  seen_series :: "int set"
  partial_series :: "int \<rightharpoonup> nat"
  prev_big_scan :: int
  prev_req_time :: int
  disk :: "state_file option"

text \<open>
  One series of the patchwork response, with what the collaborators that are not part of
  the poller do for it: \<open>load_raises\<close> is the exception of the \<open>PwSeries\<close> constructor
  (a network fetch), \<open>received_all\<close> the series' flag, \<open>tree_raises\<close> the exception of
  \<open>series_determine_tree\<close>, \<open>tester_raises\<close> the exception leaving \<open>test_series\<close> or
  \<open>write_tree_selection_result\<close> (the body of the \<open>try\<close>).
\<close>

record pw_series =
  sid :: int
  load_raises :: "exn option"
  received_all :: bool
  tree_raises :: "exn option"
  tester_raises :: "exn option"

text \<open>One pass of the loop: the value of \<open>utcnow()\<close> and the patchwork collaborator.\<close>

record cycle_env =
  now :: int
  get_series_all :: "int \<Rightarrow> exn + pw_series list"

subsection \<open>Start-up\<close>

definition init_state_from_disk :: "poller \<Rightarrow> exn + poller" where
  "init_state_from_disk p =
     (case disk p of
        None \<Rightarrow> Inr p
      | Some Malformed \<Rightarrow> Inl JSONDecodeError
      | Some (Stored lp ss) \<Rightarrow>
          Inr (p\<lparr>st_last_poll := (case lp of None \<Rightarrow> st_last_poll p | Some t \<Rightarrow> t),
                 st_seen_series := (case ss of None \<Rightarrow> st_seen_series p | Some s \<Rightarrow> s)\<rparr>))"

text \<open>
  \<open>PwPoller.__init__\<close>, at time \<open>t\<close> with the file system holding \<open>d\<close> at
  \<open>poller.state\<close>. The variables of \<open>run\<close> do not exist yet; they are given the values
  \<open>run\<close> assigns first.
\<close>

definition init_poller :: "int \<Rightarrow> state_file option \<Rightarrow> exn + poller" where
  "init_poller t d =
     (case init_state_from_disk
             \<lparr>st_last_poll = t - hours 2, st_seen_series = {}, seen_series = {},
              partial_series = Map.empty, prev_big_scan = t - hours 2, prev_req_time = t,
              disk = d\<rparr> of
        Inl e \<Rightarrow> Inl e
      | Inr p \<Rightarrow> Inr (p\<lparr>seen_series := st_seen_series p\<rparr>))"

subsection \<open>Processing one series\<close>

definition process_series :: "poller \<Rightarrow> pw_series \<Rightarrow> poller outcome" where
  "process_series p s =
     (if sid s \<in> seen_series p then Done p
      else case load_raises s of
        Some e \<Rightarrow> Raised e p
      | None \<Rightarrow>
          if \<not> received_all s then Raised IncompleteSeries p
          else (case tree_raises s of
                  Some e \<Rightarrow> Raised e p
                | None \<Rightarrow>
                    (case tester_raises s of
                       Some e \<Rightarrow>
                         if e = TesterAlreadyTested
                         then Done (p\<lparr>seen_series := insert (sid s) (seen_series p)\<rparr>)
                         else Raised e p
                     | None \<Rightarrow> Done (p\<lparr>seen_series := insert (sid s) (seen_series p)\<rparr>))))"

subsection \<open>The poll window\<close>

text \<open>The decision at the head of the loop: \<open>(big_scan, since)\<close>.\<close>

definition poll_window :: "int \<Rightarrow> int \<Rightarrow> int \<Rightarrow> bool \<times> int" where
  "poll_window prev_big prev_req req_time =
     (if prev_big + hours 3 < req_time
      then (True, prev_big - hours 9)
      else (False, prev_req - minutes 4))"

subsection \<open>The loop over the response\<close>

text \<open>
  The \<open>for pw_series in json_resp\<close> loop. The accumulator holds the poller,
  \<open>this_poll_seen\<close> and \<open>had_partial_series\<close>.
\<close>

fun process_all ::
  "pw_series list \<Rightarrow> poller \<times> int set \<times> bool \<Rightarrow> (poller \<times> int set \<times> bool) outcome" where
  "process_all [] acc = Done acc"
| "process_all (s # ss) (p, this_poll_seen, had_partial_series) =
     (case process_series p s of
        Done p' \<Rightarrow> process_all ss (p', insert (sid s) this_poll_seen, had_partial_series)
      | Raised e p' \<Rightarrow>
          if e = IncompleteSeries
          then (let c = (case partial_series p' (sid s) of None \<Rightarrow> 0 | Some n \<Rightarrow> n)
                in process_all ss
                     (p'\<lparr>partial_series := (partial_series p')(sid s \<mapsto> c + 1)\<rparr>,
                      this_poll_seen, had_partial_series \<or> c < 5))
          else Raised e (p', this_poll_seen, had_partial_series))"

subsection \<open>One pass and the whole run\<close>

definition cycle :: "cycle_env \<Rightarrow> poller \<Rightarrow> poller outcome" where
  "cycle c p =
     (let req_time = now c;
          (big_scan, since) = poll_window (prev_big_scan p) (prev_req_time p) req_time
      in case get_series_all c since of
           Inl e \<Rightarrow> Raised e p
         | Inr json_resp \<Rightarrow>
             (case process_all json_resp (p, {}, False) of
                Raised e (p', _, _) \<Rightarrow> Raised e p'
              | Done (p', this_poll_seen, had_partial_series) \<Rightarrow>
                  Done (if big_scan
                        then p'\<lparr>prev_req_time := req_time, prev_big_scan := req_time,
                                seen_series := this_poll_seen\<rparr>
                        else if had_partial_series then p'
                        else p'\<lparr>prev_req_time := req_time\<rparr>)))"

text \<open>
  The \<open>while True\<close> loop never ends by itself: it is left by an exception only. It is
  run on the passes that happen before the process is interrupted; when they are used up
  the sleep is interrupted (\<open>KeyboardInterrupt\<close>).
\<close>

fun run_loop :: "cycle_env list \<Rightarrow> poller \<Rightarrow> exn \<times> poller" where
  "run_loop [] p = (KeyboardInterrupt, p)"
| "run_loop (c # cs) p =
     (case cycle c p of
        Done p' \<Rightarrow> run_loop cs p'
      | Raised e p' \<Rightarrow> (e, p'))"

text \<open>The \<open>finally\<close> block of \<open>run\<close>.\<close>

definition save_state :: "poller \<Rightarrow> poller" where
  "save_state p =
     p\<lparr>st_last_poll := prev_big_scan p,
       st_seen_series := seen_series p,
       disk := Some (Stored (Some (prev_big_scan p)) (Some (seen_series p)))\<rparr>"

definition run :: "int \<Rightarrow> cycle_env list \<Rightarrow> poller \<Rightarrow> exn \<times> poller" where
  "run t cs p =
     (case run_loop cs (p\<lparr>partial_series := Map.empty,
                           prev_big_scan := st_last_poll p,
                           prev_req_time := t\<rparr>) of
        (e, p') \<Rightarrow> (e, save_state p'))"
subsection \<open>Notions used to state the properties of the poller\<close>

text \<open>The state an outcome ends in, however it ended.\<close>

fun final :: "'s outcome \<Rightarrow> 's" where
  "final (Done s) = s"
| "final (Raised e s) = s"

text \<open>The count the ledger \<open>partial_series\<close> holds for a series (\<open>0\<close> without entry).\<close>

definition cnt :: "poller \<Rightarrow> int \<Rightarrow> nat" where
  "cnt p x = (case partial_series p x of None \<Rightarrow> 0 | Some n \<Rightarrow> n)"

text \<open>
  A series that \<open>process_series\<close> gets through: it was seen before, or it loads, is fully
  received, its tree is determined and the tester raises nothing but
  \<open>TesterAlreadyTested\<close>.
\<close>

definition completes :: "poller \<Rightarrow> pw_series \<Rightarrow> bool" where
  "completes p s \<longleftrightarrow>
     sid s \<in> seen_series p \<or>
     (load_raises s = None \<and> received_all s \<and> tree_raises s = None \<and>
      (tester_raises s = None \<or> tester_raises s = Some TesterAlreadyTested))"

text \<open>A series that loads and is not fully received yet.\<close>

definition not_received :: "pw_series \<Rightarrow> bool" where
  "not_received s \<longleftrightarrow> load_raises s = None \<and> \<not> received_all s"

text \<open>
  In the response \<open>resp\<close> the series \<open>x\<close> is listed once, is incomplete and is the only
  incomplete one.
\<close>

definition only_incomplete :: "int \<Rightarrow> poller \<Rightarrow> pw_series list \<Rightarrow> bool" where
  "only_incomplete x p resp \<longleftrightarrow>
     x \<notin> seen_series p \<and>
     length (filter (\<lambda>s. sid s = x) resp) = 1 \<and>
     list_all (\<lambda>s. if sid s = x then not_received s else completes p s) resp"

text \<open>A routine pass (no big scan) whose response has \<open>x\<close> as its only incomplete series.\<close>

definition routine_stuck :: "int \<Rightarrow> cycle_env \<Rightarrow> poller \<Rightarrow> bool" where
  "routine_stuck x c p \<longleftrightarrow>
     (case poll_window (prev_big_scan p) (prev_req_time p) (now c) of
        (big_scan, since) \<Rightarrow>
          \<not> big_scan \<and>
          (case get_series_all c since of
             Inl e \<Rightarrow> False
           | Inr resp \<Rightarrow> only_incomplete x p resp))"

text \<open>Consecutive passes of the loop, stopping at the first exception.\<close>

fun passes :: "cycle_env list \<Rightarrow> poller \<Rightarrow> poller outcome" where
  "passes [] p = Done p"
| "passes (c # cs) p =
     (case cycle c p of
        Done p' \<Rightarrow> passes cs p'
      | Raised e p' \<Rightarrow> Raised e p')"

text \<open>Every one of the consecutive passes \<open>cs\<close> is a routine pass stuck on \<open>x\<close>.\<close>

fun stuck_run :: "int \<Rightarrow> cycle_env list \<Rightarrow> poller \<Rightarrow> bool" where
  "stuck_run x [] p = True"
| "stuck_run x (c # cs) p =
     (routine_stuck x c p \<and>
      (case cycle c p of
         Done p' \<Rightarrow> stuck_run x cs p'
       | Raised e p' \<Rightarrow> False))"

subsection \<open>Concrete inputs of the poller\<close>

definition example_poller :: poller where
  "example_poller =
     \<lparr>st_last_poll = 0, st_seen_series = {}, seen_series = {}, partial_series = Map.empty,
      prev_big_scan = 0, prev_req_time = 100, disk = None\<rparr>"

definition series_with :: "int \<Rightarrow> bool \<Rightarrow> pw_series" where
  "series_with i r =
     \<lparr>sid = i, load_raises = None, received_all = r, tree_raises = None,
      tester_raises = None\<rparr>"

definition env_with :: "int \<Rightarrow> pw_series list \<Rightarrow> cycle_env" where
  "env_with t resp = \<lparr>now = t, get_series_all = (\<lambda>since. Inr resp)\<rparr>"

text \<open>
  Six passes, 200 to 700 microseconds after the last big scan, each with series 7 not
  fully received.
\<close>

definition stuck_envs :: "cycle_env list" where
  "stuck_envs =
     [env_with 200 [series_with 7 False],
      env_with 300 [series_with 7 False, series_with 8 True],
      env_with 400 [series_with 7 False],
      env_with 500 [series_with 8 True, series_with 7 False],
      env_with 600 [series_with 7 False],
      env_with 700 [series_with 7 False]]"
section \<open>contest/results-fetcher.py\<close>

subsection \<open>Paths\<close>

text \<open>\<open>os.path.basename\<close> and \<open>os.path.join\<close> of two components, as \<open>posixpath\<close> has them.\<close>

definition basename :: "string \<Rightarrow> string" where
  "basename p = rev (takeWhile (\<lambda>c. c \<noteq> CHR ''/'') (rev p))"

definition path_join :: "string \<Rightarrow> string \<Rightarrow> string" where
  "path_join a b =
     (if b \<noteq> [] \<and> hd b = CHR ''/'' then b
      else if a = [] \<or> last a = CHR ''/'' then a @ b
      else a @ ''/'' @ b)"

subsection \<open>Data\<close>

text \<open>
  One entry of a manifest: a JSON object with the keys \<open>branch\<close> and \<open>url\<close>; the url is
  \<open>None\<close> for JSON \<open>null\<close>. Python takes \<open>null\<close> and the empty string for false.
\<close>

record entry =
  branch :: string
  url :: "string option"

definition url_of :: "entry \<Rightarrow> string" where
  "url_of e = (case url e of None \<Rightarrow> [] | Some u \<Rightarrow> u)"

definition has_url :: "entry \<Rightarrow> bool" where
  "has_url e \<longleftrightarrow> url_of e \<noteq> []"

text \<open>One record of the branch feed; the date is taken as parsed (microseconds).\<close>

record branch_rec =
  br_branch :: string
  br_date :: int

text \<open>
  One record of the combined view: the entry of a running executor with the start and the
  expected end, or the content of a fetched artifact; each tagged with its remote.
\<close>

datatype 'd body = Running entry int int | Results 'd

record 'd item =
  item_remote :: string
  item_body :: "'d body"

text \<open>
  The files the program reads and writes are JSON files: a manifest, an artifact (of an
  unspecified payload type \<open>'d\<close>), a combined view, or a file whose text is not complete
  JSON yet (while it is being written). The file system maps paths to files; directories
  are not part of it.
\<close>

datatype 'd json_file = Partial | Manifest "entry list" | Artifact 'd | Combined "'d item list"

type_synonym 'd files = "string \<rightharpoonup> 'd json_file"

text \<open>One element of \<open>remote_db\<close>, and the options of \<open>fetcher.config\<close> the loop reads.\<close>

record remote =
  name :: string
  manifest_url :: string

record config =
  out_dir :: string
  url_pfx :: string
  combined :: string
  branch_url :: string

text \<open>The value of \<open>seen[name]\<close>.\<close>

record remote_state =
  seen :: "string set"
  wip :: "string set"
  dir :: string
  out_url :: string

text \<open>
  The network during one pass of the loop: what fetching and decoding a manifest, an
  artifact and the branch feed gives, by URL.
\<close>

record 'd net =
  get_manifest :: "string \<Rightarrow> entry list reply"
  get_run :: "string \<Rightarrow> 'd reply"
  get_branches :: "string \<Rightarrow> branch_rec list reply"

text \<open>
  The trace records each call of \<open>fetch_remote_run\<close> (with the remote's name and the
  branch of the run) and each call of \<open>write_json_atomic\<close>.
\<close>

datatype event = FetchRun string string | Publish

text \<open>
  The state of the loop: \<open>fetcher.fetched\<close>, the variable \<open>seen\<close>, the file system and
  the trace.
\<close>

record 'd world =
  fetched :: bool
  seen_dict :: "string \<rightharpoonup> remote_state"
  fs :: "'d files"
  trace :: "event list"

subsection \<open>write\_json\_atomic\<close>

text \<open>
  The file systems a reader can observe while \<open>write_json_atomic\<close> runs: after the
  temporary file is opened, after the JSON is dumped, after the rename.
\<close>

definition write_json_atomic_steps :: "string \<Rightarrow> 'd json_file \<Rightarrow> 'd files \<Rightarrow> 'd files list" where
  "write_json_atomic_steps path data f =
     (let tmp = path @ ''.new''
      in [f(tmp \<mapsto> Partial), f(tmp \<mapsto> data), (f(tmp := None))(path \<mapsto> data)])"

definition write_json_atomic :: "string \<Rightarrow> 'd json_file \<Rightarrow> 'd files \<Rightarrow> 'd files" where
  "write_json_atomic path data f = last (write_json_atomic_steps path data f)"

subsection \<open>fetch\_remote\_run and fetch\_remote\<close>

definition fetch_remote_run :: "'d net \<Rightarrow> entry \<Rightarrow> remote_state \<Rightarrow> 'd world \<Rightarrow> 'd world outcome" where
  "fetch_remote_run nt run_info rs w =
     (case get_run nt (url_of run_info) of
        NetFail \<Rightarrow> Raised ConnectionError w
      | NotUtf8 \<Rightarrow> Raised UnicodeDecodeError w
      | NotJson \<Rightarrow> Raised JSONDecodeError w
      | Decoded data \<Rightarrow>
          (let b = basename (url_of run_info)
           in if b = [] then Raised IsADirectoryError w
              else Done (w\<lparr>fs := (fs w)(path_join (dir rs) b \<mapsto> Artifact data)\<rparr>)))"

text \<open>The \<open>for run in manifest\<close> loop of \<open>fetch_remote\<close>, for the remote named \<open>nm\<close>;
  \<open>rn\<close> is the loop variable \<open>run\<close>.\<close>

fun fetch_runs ::
  "'d net \<Rightarrow> string \<Rightarrow> remote_state \<Rightarrow> entry list \<Rightarrow> 'd world \<Rightarrow> 'd world outcome" where
  "fetch_runs nt nm rs [] w = Done w"
| "fetch_runs nt nm rs (rn # manifest) w =
     (if branch rn \<in> seen rs then fetch_runs nt nm rs manifest w
      else if \<not> has_url rn
      then fetch_runs nt nm rs manifest (w\<lparr>fetched := fetched w \<or> branch rn \<notin> wip rs\<rparr>)
      else (case fetch_remote_run nt rn rs (w\<lparr>trace := trace w @ [FetchRun nm (branch rn)]\<rparr>) of
              Raised e w' \<Rightarrow> Raised e w'
            | Done w' \<Rightarrow> fetch_runs nt nm rs manifest (w'\<lparr>fetched := True\<rparr>)))"

definition fetch_remote :: "'d net \<Rightarrow> remote \<Rightarrow> 'd world \<Rightarrow> 'd world outcome" where
  "fetch_remote nt r w =
     (case get_manifest nt (manifest_url r) of
        NetFail \<Rightarrow> Raised ConnectionError w
      | NotUtf8 \<Rightarrow> Raised UnicodeDecodeError w
      | NotJson \<Rightarrow> Done w
      | Decoded manifest \<Rightarrow>
          (case seen_dict w (name r) of
             None \<Rightarrow> Raised KeyError w
           | Some rs \<Rightarrow>
               (case fetch_runs nt (name r) rs manifest w of
                  Raised e w' \<Rightarrow> Raised e w'
                | Done w' \<Rightarrow>
                    Done (w'\<lparr>fs := (fs w')(path_join (dir rs) ''results.json''
                                             \<mapsto> Manifest manifest)\<rparr>))))"

text \<open>The \<open>for remote in remote_db\<close> loop of \<open>main\<close>.\<close>

fun fetch_all :: "'d net \<Rightarrow> remote list \<Rightarrow> 'd world \<Rightarrow> 'd world outcome" where
  "fetch_all nt [] w = Done w"
| "fetch_all nt (r # remote_db) w =
     (case fetch_remote nt r w of
        Raised e w' \<Rightarrow> Raised e w'
      | Done w' \<Rightarrow> fetch_all nt remote_db w')"

subsection \<open>build\_seen\<close>

text \<open>
  \<open>os.path.exists\<close> of the artifact with base name \<open>b\<close> in the directory \<open>d\<close>. With an
  empty base name the path is the directory itself, which \<open>build_seen\<close> has created.
\<close>

definition artifact_exists :: "'d files \<Rightarrow> string \<Rightarrow> string \<Rightarrow> bool" where
  "artifact_exists f d b \<longleftrightarrow> b = [] \<or> f (path_join d b) \<noteq> None"

text \<open>The \<open>for entry in results\<close> loop of \<open>build_seen\<close>.\<close>

fun scan_results :: "'d files \<Rightarrow> string \<Rightarrow> entry list \<Rightarrow> remote_state \<Rightarrow> remote_state" where
  "scan_results f d [] st = st"
| "scan_results f d (e # results) st =
     (if \<not> has_url e
      then scan_results f d results (st\<lparr>wip := insert (branch e) (wip st)\<rparr>)
      else if \<not> artifact_exists f d (basename (url_of e))
      then scan_results f d results st
      else scan_results f d results (st\<lparr>seen := insert (branch e) (seen st)\<rparr>))"

text \<open>
  The body of the \<open>for remote in remote_db\<close> loop of \<open>build_seen\<close>. \<open>os.makedirs\<close> of
  the empty path raises; a snapshot file that is not a list of entries makes the loop
  over it raise.
\<close>

definition build_remote :: "config \<Rightarrow> 'd files \<Rightarrow> remote \<Rightarrow> exn + remote_state" where
  "build_remote cfg f r =
     (let d = path_join (out_dir cfg) (name r);
          st = \<lparr>seen = {}, wip = {}, dir = d, out_url = url_pfx cfg @ ''/'' @ name r\<rparr>
      in if d = [] then Inl FileNotFoundError
         else (case f (path_join d ''results.json'') of
                 None \<Rightarrow> Inr st
               | Some Partial \<Rightarrow> Inl JSONDecodeError
               | Some (Manifest results) \<Rightarrow> Inr (scan_results f d results st)
               | Some (Artifact x) \<Rightarrow> Inl TypeError
               | Some (Combined x) \<Rightarrow> Inl TypeError))"

fun build_seen_loop ::
  "config \<Rightarrow> 'd files \<Rightarrow> remote list \<Rightarrow> (string \<rightharpoonup> remote_state) \<Rightarrow>
   exn + (string \<rightharpoonup> remote_state)" where
  "build_seen_loop cfg f [] sn = Inr sn"
| "build_seen_loop cfg f (r # remote_db) sn =
     (case build_remote cfg f r of
        Inl e \<Rightarrow> Inl e
      | Inr st \<Rightarrow> build_seen_loop cfg f remote_db (sn(name r \<mapsto> st)))"

definition build_seen :: "config \<Rightarrow> 'd files \<Rightarrow> remote list \<Rightarrow> exn + (string \<rightharpoonup> remote_state)" where
  "build_seen cfg f remote_db = build_seen_loop cfg f remote_db Map.empty"

subsection \<open>build\_combined\<close>

text \<open>The dictionary \<open>branch_info\<close>: a later record of a branch replaces an earlier one.\<close>

fun branch_info_of :: "branch_rec list \<Rightarrow> (string \<rightharpoonup> branch_rec) \<Rightarrow> (string \<rightharpoonup> branch_rec)" where
  "branch_info_of [] bi = bi"
| "branch_info_of (br # branches) bi = branch_info_of branches (bi(br_branch br \<mapsto> br))"

text \<open>The \<open>for entry in results\<close> loop of \<open>build_combined\<close>, for the remote named \<open>nm\<close>.\<close>

fun combine_entries ::
  "'d files \<Rightarrow> (string \<rightharpoonup> branch_rec) \<Rightarrow> string \<Rightarrow> string \<Rightarrow> entry list \<Rightarrow> 'd item list \<Rightarrow>
   exn + 'd item list" where
  "combine_entries f bi nm d [] cmb = Inr cmb"
| "combine_entries f bi nm d (e # results) cmb =
     (if \<not> has_url e
      then (case bi (branch e) of
              None \<Rightarrow> combine_entries f bi nm d results cmb
            | Some br \<Rightarrow>
                combine_entries f bi nm d results
                  (cmb @ [\<lparr>item_remote = nm,
                           item_body = Running e (br_date br)
                                         (br_date br + (hours 2 + minutes 58))\<rparr>]))
      else if \<not> artifact_exists f d (basename (url_of e))
      then combine_entries f bi nm d results cmb
      else if basename (url_of e) = [] then Inl IsADirectoryError
      else (case f (path_join d (basename (url_of e))) of
              None \<Rightarrow> Inl FileNotFoundError
            | Some Partial \<Rightarrow> Inl JSONDecodeError
            | Some (Artifact data) \<Rightarrow>
                combine_entries f bi nm d results
                  (cmb @ [\<lparr>item_remote = nm, item_body = Results data\<rparr>])
            | Some (Manifest x) \<Rightarrow> Inl TypeError
            | Some (Combined x) \<Rightarrow> Inl TypeError))"

text \<open>The \<open>for remote in remote_db\<close> loop of \<open>build_combined\<close>.\<close>

fun combine_remotes ::
  "config \<Rightarrow> 'd files \<Rightarrow> (string \<rightharpoonup> branch_rec) \<Rightarrow> remote list \<Rightarrow> 'd item list \<Rightarrow>
   exn + 'd item list" where
  "combine_remotes cfg f bi [] cmb = Inr cmb"
| "combine_remotes cfg f bi (r # remote_db) cmb =
     (let d = path_join (out_dir cfg) (name r)
      in case f (path_join d ''results.json'') of
           None \<Rightarrow> combine_remotes cfg f bi remote_db cmb
         | Some Partial \<Rightarrow> Inl JSONDecodeError
         | Some (Manifest results) \<Rightarrow>
             (case combine_entries f bi (name r) d results cmb of
                Inl e \<Rightarrow> Inl e
              | Inr cmb' \<Rightarrow> combine_remotes cfg f bi remote_db cmb')
         | Some (Artifact x) \<Rightarrow> Inl TypeError
         | Some (Combined x) \<Rightarrow> Inl TypeError)"

definition build_combined ::
  "config \<Rightarrow> 'd net \<Rightarrow> 'd files \<Rightarrow> remote list \<Rightarrow> exn + 'd item list" where
  "build_combined cfg nt f remote_db =
     (case get_branches nt (branch_url cfg) of
        NetFail \<Rightarrow> Inl ConnectionError
      | NotUtf8 \<Rightarrow> Inl UnicodeDecodeError
      | NotJson \<Rightarrow> Inl JSONDecodeError
      | Decoded branches \<Rightarrow>
          combine_remotes cfg f (branch_info_of branches Map.empty) remote_db [])"

subsection \<open>One pass of the loop of main\<close>

text \<open>The head of the loop body: the rebuild of \<open>seen\<close> when \<open>fetcher.fetched\<close> is set.\<close>

definition rebuild_step :: "config \<Rightarrow> remote list \<Rightarrow> 'd world \<Rightarrow> 'd world outcome" where
  "rebuild_step cfg remote_db w =
     (if fetched w
      then (case build_seen cfg (fs w) remote_db of
              Inl e \<Rightarrow> Raised e w
            | Inr sn \<Rightarrow> Done (w\<lparr>seen_dict := sn, fetched := False\<rparr>))
      else Done w)"

text \<open>The tail of the loop body: the combined view, when \<open>fetcher.fetched\<close> is set.\<close>

definition publish_step :: "config \<Rightarrow> remote list \<Rightarrow> 'd net \<Rightarrow> 'd world \<Rightarrow> 'd world outcome" where
  "publish_step cfg remote_db nt w =
     (if fetched w
      then (case build_combined cfg nt (fs w) remote_db of
              Inl e \<Rightarrow> Raised e w
            | Inr results \<Rightarrow>
                Done (w\<lparr>trace := trace w @ [Publish],
                        fs := write_json_atomic (path_join (out_dir cfg) (combined cfg))
                                (Combined results) (fs w)\<rparr>))
      else Done w)"

definition main_cycle :: "config \<Rightarrow> remote list \<Rightarrow> 'd net \<Rightarrow> 'd world \<Rightarrow> 'd world outcome" where
  "main_cycle cfg remote_db nt w =
     (case rebuild_step cfg remote_db w of
        Raised e w1 \<Rightarrow> Raised e w1
      | Done w1 \<Rightarrow>
          (case fetch_all nt remote_db w1 of
             Raised e w2 \<Rightarrow> Raised e w2
           | Done w2 \<Rightarrow> publish_step cfg remote_db nt w2))"

text \<open>
  The states the loop can be in at the head of a pass: \<open>FetcherState()\<close> sets
  \<open>fetched\<close>, over whatever files a former run has left; a pass that completes leads to
  the next.
\<close>

inductive reachable :: "config \<Rightarrow> remote list \<Rightarrow> 'd world \<Rightarrow> bool"
  for cfg :: config and remote_db :: "remote list" where
  start: "fetched w \<Longrightarrow> reachable cfg remote_db w"
| pass: "reachable cfg remote_db w \<Longrightarrow> main_cycle cfg remote_db nt w = Done w' \<Longrightarrow>
         reachable cfg remote_db w'"
subsection \<open>Notions used to state the properties of the fetcher\<close>

text \<open>
  A manifest that makes \<open>fetch_remote\<close> set \<open>fetcher.fetched\<close>: it lists a branch that
  is not seen and either has an artifact to fetch or is not known as work in progress.
\<close>

definition new_data :: "remote_state \<Rightarrow> entry list \<Rightarrow> bool" where
  "new_data rs manifest \<longleftrightarrow>
     list_ex (\<lambda>rn. branch rn \<notin> seen rs \<and> (has_url rn \<or> branch rn \<notin> wip rs)) manifest"

text \<open>The remote \<open>r\<close> signals new data in a pass that starts its fetches in \<open>w\<close>.\<close>

definition signals :: "'d net \<Rightarrow> 'd world \<Rightarrow> remote \<Rightarrow> bool" where
  "signals nt w r \<longleftrightarrow>
     (case get_manifest nt (manifest_url r) of
        Decoded manifest \<Rightarrow>
          (case seen_dict w (name r) of
             None \<Rightarrow> False
           | Some rs \<Rightarrow> new_data rs manifest)
      | _ \<Rightarrow> False)"

subsection \<open>The invariant of the loop of main\<close>

text \<open>
  What \<open>os.path.join\<close> puts in front of a second component that does not start with a
  slash.
\<close>

definition pfx :: "string \<Rightarrow> string" where
  "pfx d = (if d = [] \<or> last d = CHR ''/'' then d else d @ ''/'')"




subsection \<open>Concrete inputs of the fetcher\<close>

definition example_cfg :: config where
  "example_cfg =
     \<lparr>out_dir = ''out'', url_pfx = ''pfx'', combined = ''all.json'', branch_url = ''http://br''\<rparr>"

definition remote_a :: remote where
  "remote_a = \<lparr>name = ''A'', manifest_url = ''http://a''\<rparr>"

definition remote_b :: remote where
  "remote_b = \<lparr>name = ''B'', manifest_url = ''http://b''\<rparr>"

definition run1 :: entry where
  "run1 = \<lparr>branch = ''br1'', url = Some ''http://a/run1.json''\<rparr>"

definition run2 :: entry where
  "run2 = \<lparr>branch = ''br2'', url = None\<rparr>"

definition state_a :: remote_state where
  "state_a = \<lparr>seen = {}, wip = {}, dir = ''out/A'', out_url = ''pfx/A''\<rparr>"

definition state_b :: remote_state where
  "state_b = \<lparr>seen = {}, wip = {}, dir = ''out/B'', out_url = ''pfx/B''\<rparr>"

text \<open>A fresh start: nothing on disk, \<open>fetched\<close> set by \<open>FetcherState()\<close>.\<close>

definition fresh_world :: "nat world" where
  "fresh_world = \<lparr>fetched = True, seen_dict = Map.empty, fs = Map.empty, trace = []\<rparr>"

text \<open>The head of a pass with both remotes known, nothing seen and \<open>fetched\<close> clear.\<close>

definition idle_world :: "nat world" where
  "idle_world =
     \<lparr>fetched = False, seen_dict = [''A'' \<mapsto> state_a, ''B'' \<mapsto> state_b], fs = Map.empty,
      trace = []\<rparr>"

text \<open>
  Networks: every manifest is the given list, or the manifest of remote A is malformed
  JSON, or fetching the manifest of remote A fails. Artifacts decode to \<open>0\<close> and the branch
  feed is empty.
\<close>

definition net_of :: "entry list \<Rightarrow> nat net" where
  "net_of m =
     \<lparr>get_manifest = (\<lambda>u. Decoded m), get_run = (\<lambda>u. Decoded 0),
      get_branches = (\<lambda>u. Decoded [])\<rparr>"

definition net_a :: "entry list reply \<Rightarrow> nat net" where
  "net_a ra =
     \<lparr>get_manifest = (\<lambda>u. if u = ''http://a'' then ra else Decoded [run2]),
      get_run = (\<lambda>u. Decoded 0), get_branches = (\<lambda>u. Decoded [])\<rparr>"

text \<open>
  Files a former run has left: the snapshot of remote A without the artifact it refers to,
  and the snapshot of remote A with the artifact of \<open>br1\<close>.
\<close>

definition disk0 :: "nat files" where
  "disk0 = [''out/A/results.json'' \<mapsto> Manifest [run1]]"

definition disk1 :: "nat files" where
  "disk1 = [''out/A/results.json'' \<mapsto> Manifest [run1, run2],
            ''out/A/run1.json'' \<mapsto> Artifact 0]"

text \<open>
  More entries: \<open>br3\<close> and \<open>br1\<close> without artifact; and the files of a snapshot that
  lists \<open>br1\<close> twice, with its fetched artifact and without reference.
\<close>

definition run3 :: entry where
  "run3 = \<lparr>branch = ''br3'', url = None\<rparr>"

definition run1w :: entry where
  "run1w = \<lparr>branch = ''br1'', url = None\<rparr>"

definition disk2 :: "nat files" where
  "disk2 = [''out/A/results.json'' \<mapsto> Manifest [run1, run1w],
            ''out/A/run1.json'' \<mapsto> Artifact 0]"

text \<open>
  A network on which every manifest is the given list and artifacts decode to \<open>0\<close>, but
  the request for the branch feed fails.
\<close>

definition net_feed_down :: "entry list \<Rightarrow> nat net" where
  "net_feed_down m =
     \<lparr>get_manifest = (\<lambda>u. Decoded m), get_run = (\<lambda>u. Decoded 0),
      get_branches = (\<lambda>u. NetFail)\<rparr>"
section \<open>Lemmas on the loop of pw\_poller.py\<close>

lemma process_series_complete:
  "completes p s \<Longrightarrow>
   \<exists>p'. process_series p s = Done p' \<and> partial_series p' = partial_series p \<and>
        prev_req_time p' = prev_req_time p \<and> prev_big_scan p' = prev_big_scan p \<and>
        disk p' = disk p \<and> seen_series p \<subseteq> seen_series p' \<and>
        seen_series p' \<subseteq> insert (sid s) (seen_series p)"
  by (auto simp: completes_def process_series_def)

lemma process_series_incomplete:
  "sid s \<notin> seen_series p \<Longrightarrow> not_received s \<Longrightarrow> process_series p s = Raised IncompleteSeries p"
  by (simp add: not_received_def process_series_def)

lemma completes_mono: "completes p s \<Longrightarrow> seen_series p \<subseteq> seen_series q \<Longrightarrow> completes q s"
  by (auto simp: completes_def)

lemma process_all_complete:
  "list_all (\<lambda>s. sid s \<noteq> x \<and> completes p s) ss \<Longrightarrow> x \<notin> seen_series p \<Longrightarrow>
   \<exists>p' tp'. process_all ss (p, tp, h) = Done (p', tp', h) \<and>
        partial_series p' = partial_series p \<and>
        prev_req_time p' = prev_req_time p \<and> prev_big_scan p' = prev_big_scan p \<and>
        disk p' = disk p \<and> seen_series p \<subseteq> seen_series p' \<and> x \<notin> seen_series p'"
proof (induction ss arbitrary: p tp)
  case Nil
  then show ?case by simp
next
  case (Cons s ss)
  from Cons.prems have cs: "completes p s" and ne: "sid s \<noteq> x"
    and rest: "list_all (\<lambda>s. sid s \<noteq> x \<and> completes p s) ss" by simp_all
  from process_series_complete [OF cs] obtain p1 where
    p1: "process_series p s = Done p1" "partial_series p1 = partial_series p"
        "prev_req_time p1 = prev_req_time p" "prev_big_scan p1 = prev_big_scan p"
        "disk p1 = disk p" "seen_series p \<subseteq> seen_series p1"
        "seen_series p1 \<subseteq> insert (sid s) (seen_series p)"
    by blast
  have rest1: "list_all (\<lambda>s. sid s \<noteq> x \<and> completes p1 s) ss"
    using rest p1(6) by (auto simp: list_all_iff intro: completes_mono)
  have nx: "x \<notin> seen_series p1" using p1(7) ne Cons.prems(2) by auto
  from Cons.IH [OF rest1 nx, of "insert (sid s) tp"] obtain p' tp' where
    "process_all ss (p1, insert (sid s) tp, h) = Done (p', tp', h)"
    "partial_series p' = partial_series p1"
    "prev_req_time p' = prev_req_time p1" "prev_big_scan p' = prev_big_scan p1"
    "disk p' = disk p1" "seen_series p1 \<subseteq> seen_series p'" "x \<notin> seen_series p'"
    by blast
  with p1 show ?case by auto
qed

lemma process_all_only:
  "only_incomplete x p ss \<Longrightarrow>
   \<exists>p' tp'. process_all ss (p, tp, h) = Done (p', tp', h \<or> cnt p x < 5) \<and>
        partial_series p' = (partial_series p)(x \<mapsto> cnt p x + 1) \<and>
        prev_req_time p' = prev_req_time p \<and> prev_big_scan p' = prev_big_scan p \<and>
        disk p' = disk p \<and> x \<notin> seen_series p'"
proof (induction ss arbitrary: p tp)
  case Nil
  then show ?case by (simp add: only_incomplete_def)
next
  case (Cons s ss)
  from Cons.prems have nx: "x \<notin> seen_series p"
    and len: "length (filter (\<lambda>s. sid s = x) (s # ss)) = 1"
    and all: "list_all (\<lambda>s. if sid s = x then not_received s else completes p s) (s # ss)"
    by (simp_all add: only_incomplete_def)
  show ?case
  proof (cases "sid s = x")
    case True
    with len have none: "filter (\<lambda>s. sid s = x) ss = []" by simp
    then have ne: "\<forall>t\<in>set ss. sid t \<noteq> x" by (simp add: filter_empty_conv)
    with all have rest: "list_all (\<lambda>s. sid s \<noteq> x \<and> completes p s) ss"
      by (auto simp: list_all_iff)
    from all True have nr: "not_received s" by simp
    have ps: "process_series p s = Raised IncompleteSeries p"
      using process_series_incomplete nx nr True by simp
    let ?q = "p\<lparr>partial_series := (partial_series p)(x \<mapsto> cnt p x + 1)\<rparr>"
    have rest': "list_all (\<lambda>s. sid s \<noteq> x \<and> completes ?q s) ss"
      using rest by (simp add: completes_def)
    have nx': "x \<notin> seen_series ?q" using nx by simp
    from process_all_complete [OF rest' nx', of tp "h \<or> cnt p x < 5"] obtain p' tp' where
      r: "process_all ss (?q, tp, h \<or> cnt p x < 5) = Done (p', tp', h \<or> cnt p x < 5)"
         "partial_series p' = partial_series ?q"
         "prev_req_time p' = prev_req_time ?q" "prev_big_scan p' = prev_big_scan ?q"
         "disk p' = disk ?q" "x \<notin> seen_series p'"
      by blast
    have pa: "process_all (s # ss) (p, tp, h) = Done (p', tp', h \<or> cnt p x < 5)"
      using ps True r(1) by (simp add: cnt_def Let_def)
    have r': "partial_series p' = (partial_series p)(x \<mapsto> cnt p x + 1)"
      "prev_req_time p' = prev_req_time p" "prev_big_scan p' = prev_big_scan p"
      "disk p' = disk p"
      using r(2-5) by simp_all
    from pa r' r(6) show ?thesis by blast
  next
    case False
    with all have cs: "completes p s" by simp
    from process_series_complete [OF cs] obtain p1 where
      p1: "process_series p s = Done p1" "partial_series p1 = partial_series p"
          "prev_req_time p1 = prev_req_time p" "prev_big_scan p1 = prev_big_scan p"
          "disk p1 = disk p" "seen_series p \<subseteq> seen_series p1"
          "seen_series p1 \<subseteq> insert (sid s) (seen_series p)"
      by blast
    have nx1: "x \<notin> seen_series p1" using p1(7) False nx by auto
    have "list_all (\<lambda>s. if sid s = x then not_received s else completes p1 s) ss"
      using all p1(6) completes_mono [of p _ p1] by (simp add: list_all_iff)
    then have "only_incomplete x p1 ss"
      using len False nx1 by (simp add: only_incomplete_def)
    from Cons.IH [OF this, of "insert (sid s) tp"] obtain p' tp' where
      "process_all ss (p1, insert (sid s) tp, h) = Done (p', tp', h \<or> cnt p1 x < 5)"
      "partial_series p' = (partial_series p1)(x \<mapsto> cnt p1 x + 1)"
      "prev_req_time p' = prev_req_time p1" "prev_big_scan p' = prev_big_scan p1"
      "disk p' = disk p1" "x \<notin> seen_series p'"
      by blast
    moreover have "cnt p1 x = cnt p x" using p1(2) by (simp add: cnt_def)
    ultimately show ?thesis using p1 by auto
  qed
qed

lemma cycle_routine_stuck:
  assumes "routine_stuck x c p"
  shows "\<exists>p'. cycle c p = Done p' \<and>
          partial_series p' = (partial_series p)(x \<mapsto> cnt p x + 1) \<and>
          prev_req_time p' = (if cnt p x < 5 then prev_req_time p else now c) \<and>
          prev_big_scan p' = prev_big_scan p \<and> disk p' = disk p"
proof -
  obtain b since where pw: "poll_window (prev_big_scan p) (prev_req_time p) (now c) = (b, since)"
    by (cases "poll_window (prev_big_scan p) (prev_req_time p) (now c)")
  with assms have nb: "\<not> b" by (simp add: routine_stuck_def)
  from assms pw obtain resp where resp: "get_series_all c since = Inr resp"
    and only: "only_incomplete x p resp"
    by (auto simp: routine_stuck_def split: sum.splits)
  from process_all_only [OF only, of "{}" False] obtain p' tp' where
    "process_all resp (p, {}, False) = Done (p', tp', False \<or> cnt p x < 5)"
    "partial_series p' = (partial_series p)(x \<mapsto> cnt p x + 1)"
    "prev_req_time p' = prev_req_time p" "prev_big_scan p' = prev_big_scan p"
    "disk p' = disk p"
    by blast
  then show ?thesis using pw nb resp by (simp add: cycle_def)
qed

lemma stuck_run_passes:
  "stuck_run x cs p \<Longrightarrow>
   \<exists>p'. passes cs p = Done p' \<and> cnt p' x = cnt p x + length cs \<and>
        prev_req_time p' =
          (if cs = [] \<or> cnt p x + length cs \<le> 5 then prev_req_time p else now (last cs))"
proof (induction cs arbitrary: p)
  case Nil
  then show ?case by simp
next
  case (Cons c cs)
  from Cons.prems have rs: "routine_stuck x c p" by simp
  from cycle_routine_stuck [OF rs] obtain p1 where
    p1: "cycle c p = Done p1" "partial_series p1 = (partial_series p)(x \<mapsto> cnt p x + 1)"
        "prev_req_time p1 = (if cnt p x < 5 then prev_req_time p else now c)"
    by blast
  with Cons.prems have "stuck_run x cs p1" by simp
  from Cons.IH [OF this] obtain p' where
    p': "passes cs p1 = Done p'" "cnt p' x = cnt p1 x + length cs"
        "prev_req_time p' =
          (if cs = [] \<or> cnt p1 x + length cs \<le> 5 then prev_req_time p1 else now (last cs))"
    by blast
  have c1: "cnt p1 x = cnt p x + 1" using p1(2) by (simp add: cnt_def)
  show ?case using p1 p' c1 by auto
qed

lemma process_series_keeps:
  "partial_series (final (process_series p s)) = partial_series p \<and>
   disk (final (process_series p s)) = disk p"
  by (simp add: process_series_def split: option.splits)

lemma process_series_cases:
  "(\<exists>p'. process_series p s = Done p' \<and> partial_series p' = partial_series p \<and>
         disk p' = disk p \<and> seen_series p' \<subseteq> insert (sid s) (seen_series p)) \<or>
   (\<exists>e. process_series p s = Raised e p)"
  by (auto simp: process_series_def split: option.splits)

lemma process_all_ledger_mono:
  "partial_series p x = Some n \<Longrightarrow>
   \<exists>m\<ge>n. partial_series (fst (final (process_all ss (p, tp, h)))) x = Some m"
proof (induction ss arbitrary: p tp h n)
  case Nil
  then show ?case by simp
next
  case (Cons s ss)
  from process_series_cases [of p s] show ?case
  proof
    assume "\<exists>p'. process_series p s = Done p' \<and> partial_series p' = partial_series p \<and>
         disk p' = disk p \<and> seen_series p' \<subseteq> insert (sid s) (seen_series p)"
    then obtain p' where p': "process_series p s = Done p'" "partial_series p' = partial_series p"
      by blast
    with Cons.prems have "partial_series p' x = Some n" by simp
    from Cons.IH [OF this] show ?thesis using p'(1) by simp
  next
    assume "\<exists>e. process_series p s = Raised e p"
    then obtain e where e: "process_series p s = Raised e p" by blast
    show ?thesis
    proof (cases "e = IncompleteSeries")
      case False
      with e Cons.prems show ?thesis by simp
    next
      case True
      let ?c = "case partial_series p (sid s) of None \<Rightarrow> 0 | Some n \<Rightarrow> n"
      let ?q = "p\<lparr>partial_series := (partial_series p)(sid s \<mapsto> ?c + 1)\<rparr>"
      have "\<exists>k\<ge>n. partial_series ?q x = Some k"
        using Cons.prems by (cases "sid s = x") auto
      then obtain k where k: "k \<ge> n" "partial_series ?q x = Some k" by blast
      from Cons.IH [OF k(2), of tp "h \<or> ?c < 5"] obtain m where
        "m \<ge> k" "partial_series (fst (final (process_all ss (?q, tp, h \<or> ?c < 5)))) x = Some m"
        by blast
      with k(1) e True show ?thesis by (auto simp: Let_def)
    qed
  qed
qed

lemma process_all_disk:
  "disk (fst (final (process_all ss (p, tp, h)))) = disk p"
proof (induction ss arbitrary: p tp h)
  case Nil
  then show ?case by simp
next
  case (Cons s ss)
  from process_series_cases [of p s] show ?case
  proof
    assume "\<exists>p'. process_series p s = Done p' \<and> partial_series p' = partial_series p \<and>
         disk p' = disk p \<and> seen_series p' \<subseteq> insert (sid s) (seen_series p)"
    then obtain p' where p': "process_series p s = Done p'" "disk p' = disk p"
      by blast
    with Cons.IH [of p'] show ?thesis by simp
  next
    assume "\<exists>e. process_series p s = Raised e p"
    then obtain e where e: "process_series p s = Raised e p" by blast
    then show ?thesis using Cons.IH by (simp add: Let_def)
  qed
qed

lemma process_all_count:
  "process_all ss (p, tp, h) = Done (p', tp', h') \<Longrightarrow> x \<notin> seen_series p \<Longrightarrow>
   list_all (\<lambda>s. sid s = x \<longrightarrow> not_received s) ss \<Longrightarrow>
   partial_series p' x =
     (if filter (\<lambda>s. sid s = x) ss = [] then partial_series p x
      else Some (cnt p x + length (filter (\<lambda>s. sid s = x) ss)))"
proof (induction ss arbitrary: p tp h)
  case Nil
  then show ?case by simp
next
  case (Cons s ss)
  from Cons.prems have rest: "list_all (\<lambda>s. sid s = x \<longrightarrow> not_received s) ss" by simp
  show ?case
  proof (cases "sid s = x")
    case True
    with Cons.prems have "not_received s" by simp
    then have ps: "process_series p s = Raised IncompleteSeries p"
      using process_series_incomplete Cons.prems(2) True by simp
    let ?q = "p\<lparr>partial_series := (partial_series p)(x \<mapsto> cnt p x + 1)\<rparr>"
    from Cons.prems(1) ps True
    have pa: "process_all ss (?q, tp, h \<or> cnt p x < 5) = Done (p', tp', h')"
      by (simp add: Let_def cnt_def)
    have nx: "x \<notin> seen_series ?q" using Cons.prems(2) by simp
    have cq: "cnt ?q x = cnt p x + 1" "partial_series ?q x = Some (cnt p x + 1)"
      by (simp_all add: cnt_def)
    from Cons.IH [OF pa nx rest] cq True show ?thesis by simp
  next
    case False
    from process_series_cases [of p s] show ?thesis
    proof
      assume "\<exists>p'. process_series p s = Done p' \<and> partial_series p' = partial_series p \<and>
         disk p' = disk p \<and> seen_series p' \<subseteq> insert (sid s) (seen_series p)"
      then obtain p1 where p1: "process_series p s = Done p1"
        "partial_series p1 = partial_series p"
        "seen_series p1 \<subseteq> insert (sid s) (seen_series p)"
        by blast
      from Cons.prems(1) p1(1)
      have pa: "process_all ss (p1, insert (sid s) tp, h) = Done (p', tp', h')" by simp
      have nx: "x \<notin> seen_series p1" using p1(3) False Cons.prems(2) by auto
      have "cnt p1 x = cnt p x" using p1(2) by (simp add: cnt_def)
      with Cons.IH [OF pa nx rest] p1(2) False show ?thesis by simp
    next
      assume "\<exists>e. process_series p s = Raised e p"
      then obtain e where e: "process_series p s = Raised e p" by blast
      with Cons.prems(1) have ei: "e = IncompleteSeries" by (simp split: if_splits)
      let ?c = "case partial_series p (sid s) of None \<Rightarrow> 0 | Some n \<Rightarrow> n"
      let ?q = "p\<lparr>partial_series := (partial_series p)(sid s \<mapsto> ?c + 1)\<rparr>"
      from Cons.prems(1) e ei
      have pa: "process_all ss (?q, tp, h \<or> ?c < 5) = Done (p', tp', h')"
        by (simp add: Let_def)
      have nx: "x \<notin> seen_series ?q" using Cons.prems(2) by simp
      have "partial_series ?q x = partial_series p x" "cnt ?q x = cnt p x"
        using False by (simp_all add: cnt_def)
      with Cons.IH [OF pa nx rest] False show ?thesis by simp
    qed
  qed
qed

lemma cycle_final_fields:
  "disk (final (cycle c p)) = disk p"
proof -
  obtain b since where pw: "poll_window (prev_big_scan p) (prev_req_time p) (now c) = (b, since)"
    by (cases "poll_window (prev_big_scan p) (prev_req_time p) (now c)")
  show ?thesis
  proof (cases "get_series_all c since")
    case (Inl e)
    with pw show ?thesis by (simp add: cycle_def Let_def)
  next
    case (Inr resp)
    have d: "disk (fst (final (process_all resp (p, {}, False)))) = disk p"
      by (rule process_all_disk)
    show ?thesis
    proof (cases "process_all resp (p, {}, False)")
      case (Done acc)
      obtain p' tp' h' where "acc = (p', tp', h')" by (cases acc)
      with Done d pw Inr show ?thesis by (simp add: cycle_def Let_def)
    next
      case (Raised e acc)
      obtain p' tp' h' where "acc = (p', tp', h')" by (cases acc)
      with Raised d pw Inr show ?thesis by (simp add: cycle_def Let_def)
    qed
  qed
qed

lemma cycle_ledger_mono:
  assumes "partial_series p x = Some n"
  shows "\<exists>m\<ge>n. partial_series (final (cycle c p)) x = Some m"
proof -
  obtain b since where pw: "poll_window (prev_big_scan p) (prev_req_time p) (now c) = (b, since)"
    by (cases "poll_window (prev_big_scan p) (prev_req_time p) (now c)")
  show ?thesis
  proof (cases "get_series_all c since")
    case (Inl e)
    with pw assms show ?thesis by (simp add: cycle_def Let_def)
  next
    case (Inr resp)
    from process_all_ledger_mono [OF assms, of resp "{}" False] obtain m where
      m: "m \<ge> n" "partial_series (fst (final (process_all resp (p, {}, False)))) x = Some m"
      by blast
    show ?thesis
    proof (cases "process_all resp (p, {}, False)")
      case (Done acc)
      obtain p' tp' h' where "acc = (p', tp', h')" by (cases acc)
      with Done m pw Inr show ?thesis by (auto simp: cycle_def Let_def)
    next
      case (Raised e acc)
      obtain p' tp' h' where "acc = (p', tp', h')" by (cases acc)
      with Raised m pw Inr show ?thesis by (auto simp: cycle_def Let_def)
    qed
  qed
qed

lemma cycle_count:
  assumes "get_series_all c (snd (poll_window (prev_big_scan p) (prev_req_time p) (now c))) = Inr resp"
    and "cycle c p = Done p'" and "x \<notin> seen_series p"
    and "list_all (\<lambda>s. sid s = x \<longrightarrow> not_received s) resp"
  shows "partial_series p' x =
     (if filter (\<lambda>s. sid s = x) resp = [] then partial_series p x
      else Some (cnt p x + length (filter (\<lambda>s. sid s = x) resp)))"
proof -
  obtain b since where pw: "poll_window (prev_big_scan p) (prev_req_time p) (now c) = (b, since)"
    by (cases "poll_window (prev_big_scan p) (prev_req_time p) (now c)")
  with assms(1) have resp: "get_series_all c since = Inr resp" by simp
  show ?thesis
  proof (cases "process_all resp (p, {}, False)")
    case (Raised e acc)
    obtain q tp' h' where "acc = (q, tp', h')" by (cases acc)
    with Raised assms(2) pw resp show ?thesis by (simp add: cycle_def Let_def)
  next
    case (Done acc)
    obtain q tp' h' where acc: "acc = (q, tp', h')" by (cases acc)
    with Done have pa: "process_all resp (p, {}, False) = Done (q, tp', h')" by simp
    from process_all_count [OF pa assms(3) assms(4)]
    have q: "partial_series q x =
     (if filter (\<lambda>s. sid s = x) resp = [] then partial_series p x
      else Some (cnt p x + length (filter (\<lambda>s. sid s = x) resp)))" .
    have "partial_series p' = partial_series q"
      using assms(2) pw resp pa by (auto simp: cycle_def Let_def split: if_splits)
    with q show ?thesis by simp
  qed
qed

lemma cycle_big_scan:
  assumes "fst (poll_window (prev_big_scan p) (prev_req_time p) (now c))"
    and "cycle c p = Done q"
  shows "prev_req_time q = now c \<and> prev_big_scan q = now c"
proof -
  obtain b since where pw: "poll_window (prev_big_scan p) (prev_req_time p) (now c) = (b, since)"
    by (cases "poll_window (prev_big_scan p) (prev_req_time p) (now c)")
  with assms(1) have b by simp
  with assms(2) pw show ?thesis
    by (auto simp: cycle_def Let_def split: sum.splits outcome.splits prod.splits)
qed
section \<open>Properties of pw\_poller.py\<close>

text \<open>
  Claim C6 (poll window schedule). With the current time \<open>req_time\<close>, the time of the
  previous big scan and the previous request time, the pass is a big scan exactly when
  more than 3 hours (10800000000 microseconds) have passed since the previous big scan, and
  then the window starts 9 hours before the previous big scan; otherwise the pass is a
  routine one and the window starts 4 minutes before the previous request time. The pass
  asks patchwork for the series since that start and for nothing else.
\<close>

theorem poll_window_schedule:
  "fst (poll_window prev_big prev_req req_time) = (10800000000 < req_time - prev_big) \<and>
   snd (poll_window prev_big prev_req req_time) =
     (if 10800000000 < req_time - prev_big then prev_big - 32400000000
      else prev_req - 240000000) \<and>
   (now c = now c' \<longrightarrow>
    get_series_all c (snd (poll_window (prev_big_scan p) (prev_req_time p) (now c))) =
    get_series_all c' (snd (poll_window (prev_big_scan p) (prev_req_time p) (now c))) \<longrightarrow>
    cycle c p = cycle c' p)"
  by (simp add: poll_window_def hours_def minutes_def cycle_def Let_def split: prod.splits)

text \<open>
  At time 200 after a big scan at 0 and a request at 100 the pass is routine and asks for
  the series since 100 minus 4 minutes; what patchwork would answer for any other start of
  the window does not matter.
\<close>

theorem poll_window_schedule_witness:
  "now (env_with 200 []) = now \<lparr>now = 200, get_series_all = (\<lambda>since. if since = - 239999900
      then Inr [] else Inl ConnectionError)\<rparr> \<and>
   poll_window 0 100 200 = (False, - 239999900) \<and>
   cycle (env_with 200 []) example_poller =
   cycle \<lparr>now = 200, get_series_all = (\<lambda>since. if since = - 239999900
      then Inr [] else Inl ConnectionError)\<rparr> example_poller"
proof -
  let ?c = "env_with 200 []"
  let ?c' = "\<lparr>now = 200, get_series_all = (\<lambda>since. if since = - 239999900
      then Inr [] else Inl ConnectionError)\<rparr>"
  have h1: "now ?c = now ?c'" by (simp add: env_with_def)
  have w: "poll_window 0 100 200 = (False, - 239999900)"
    by (simp add: poll_window_def hours_def minutes_def)
  then have h2: "get_series_all ?c
      (snd (poll_window (prev_big_scan example_poller) (prev_req_time example_poller) (now ?c))) =
    get_series_all ?c'
      (snd (poll_window (prev_big_scan example_poller) (prev_req_time example_poller) (now ?c)))"
    by (simp add: env_with_def example_poller_def)
  from poll_window_schedule [of 0 100 200 ?c ?c' example_poller] h1 h2
  have "cycle ?c example_poller = cycle ?c' example_poller" by blast
  with h1 w show ?thesis by blast
qed

text \<open>
  Claim C2 (retry bound), as the code has it. Starting with no ledger entry for \<open>x\<close>,
  let \<open>x\<close> be the only incomplete series in each of the consecutive routine passes
  \<open>cs\<close>. Then every pass completes, the ledger counts the passes, and the request time
  \<open>prev_req_time\<close> is still the initial one after up to 5 passes and is the time of the
  last pass from the 6th pass on. A big scan, however, sets \<open>prev_req_time\<close> to its own
  time whatever the ledger holds.
\<close>

theorem retry_bound_routine:
  "(partial_series p x = None \<longrightarrow> stuck_run x cs p \<longrightarrow>
      (\<exists>p'. passes cs p = Done p' \<and> cnt p' x = length cs \<and>
            prev_req_time p' =
              (if length cs \<le> 5 then prev_req_time p else now (last cs)))) \<and>
   (fst (poll_window (prev_big_scan p) (prev_req_time p) (now c)) \<longrightarrow> cycle c p = Done q \<longrightarrow>
      prev_req_time q = now c)"
proof (intro conjI impI)
  assume n: "partial_series p x = None" and s: "stuck_run x cs p"
  from n have "cnt p x = 0" by (simp add: cnt_def)
  with stuck_run_passes [OF s] show
    "\<exists>p'. passes cs p = Done p' \<and> cnt p' x = length cs \<and>
            prev_req_time p' = (if length cs \<le> 5 then prev_req_time p else now (last cs))"
    by auto
next
  assume "fst (poll_window (prev_big_scan p) (prev_req_time p) (now c))" "cycle c p = Done q"
  then show "prev_req_time q = now c" using cycle_big_scan by blast
qed

text \<open>
  Six routine passes stuck on series 7 leave the count at 6 and move the request time to
  700, the time of the sixth pass; a big scan with series 7 incomplete moves it at once.
\<close>

theorem retry_bound_routine_witness:
  "partial_series example_poller 7 = None \<and> stuck_run 7 stuck_envs example_poller \<and>
   (\<exists>p'. passes stuck_envs example_poller = Done p' \<and> cnt p' 7 = 6 \<and>
         prev_req_time p' = 700) \<and>
   fst (poll_window 0 100 14400000000) \<and>
   (\<exists>q. cycle (env_with 14400000000 [series_with 7 False]) example_poller = Done q \<and>
        prev_req_time q = 14400000000)"
proof -
  let ?c = "env_with 14400000000 [series_with 7 False]"
  have h1: "partial_series example_poller 7 = None"
    by (simp add: example_poller_def)
  have h2: "stuck_run 7 stuck_envs example_poller"
    by (simp add: stuck_envs_def routine_stuck_def only_incomplete_def not_received_def
          completes_def cycle_def poll_window_def hours_def minutes_def env_with_def
          series_with_def example_poller_def process_series_def Let_def)
  have h3: "fst (poll_window (prev_big_scan example_poller) (prev_req_time example_poller)
              (now ?c))"
    by (simp add: poll_window_def hours_def env_with_def example_poller_def)
  obtain q where h4: "cycle ?c example_poller = Done q"
    by (simp add: cycle_def poll_window_def hours_def minutes_def env_with_def series_with_def
          example_poller_def process_series_def Let_def)
  note t = retry_bound_routine [of example_poller 7 stuck_envs ?c q]
  have l: "length stuck_envs = 6" "now (last stuck_envs) = 700"
    by (simp_all add: stuck_envs_def env_with_def)
  from t h1 h2 obtain p' where "passes stuck_envs example_poller = Done p'"
    "cnt p' 7 = length stuck_envs"
    "prev_req_time p' =
       (if length stuck_envs \<le> 5 then prev_req_time example_poller else now (last stuck_envs))"
    by blast
  with l have a: "\<exists>p'. passes stuck_envs example_poller = Done p' \<and> cnt p' 7 = 6 \<and>
         prev_req_time p' = 700"
    by simp
  from t h3 h4 have b: "prev_req_time q = 14400000000"
    by (simp add: env_with_def)
  from h3 have h3': "fst (poll_window 0 100 14400000000)"
    by (simp add: env_with_def example_poller_def)
  from h1 h2 a h3' h4 b show ?thesis by blast
qed

text \<open>
  The claim as stated fails on a big scan: at the first incomplete observation of series 7
  (count 1 afterwards) the request time advances.
\<close>

theorem retry_bound_counterexample:
  "\<exists>q. cycle (env_with 14400000000 [series_with 7 False]) example_poller = Done q \<and>
       partial_series example_poller 7 = None \<and>
       partial_series q 7 = Some 1 \<and>
       prev_req_time q \<noteq> prev_req_time example_poller"
  by (simp add: cycle_def poll_window_def hours_def minutes_def env_with_def series_with_def
        example_poller_def process_series_def Let_def)

text \<open>
  Claim C8 (retry ledger lifecycle), as the code has it. In a pass that completes, a series
  \<open>x\<close> that was not seen before and is not fully received wherever the response lists it
  gets its ledger entry created (count 1 at the first observation) or incremented by one
  for each observation. No pass, routine or big scan, completed or not, removes or lowers
  an entry: the ledger is emptied only where \<open>run\<close> starts.
\<close>

theorem ledger_lifecycle:
  "(get_series_all c (snd (poll_window (prev_big_scan p) (prev_req_time p) (now c))) = Inr resp
      \<longrightarrow> cycle c p = Done p' \<longrightarrow> x \<notin> seen_series p \<longrightarrow>
      list_all (\<lambda>s. sid s = x \<longrightarrow> not_received s) resp \<longrightarrow>
      partial_series p' x =
        (if filter (\<lambda>s. sid s = x) resp = [] then partial_series p x
         else Some (cnt p x + length (filter (\<lambda>s. sid s = x) resp)))) \<and>
   (partial_series p x = Some n \<longrightarrow>
      (\<exists>m\<ge>n. partial_series (final (cycle c p)) x = Some m))"
  using cycle_count [of c p resp p' x] cycle_ledger_mono [of p x n c] by blast

text \<open>
  With count 3 for series 7: a big scan that observes it incomplete makes the count 4, and
  a big scan in which it completes keeps an entry of at least 3.
\<close>

theorem ledger_lifecycle_witness:
  "(\<exists>q. cycle (env_with 14400000000 [series_with 7 False])
           (example_poller\<lparr>partial_series := [7 \<mapsto> 3]\<rparr>) = Done q \<and>
        partial_series q 7 = Some 4) \<and>
   (\<exists>m\<ge>3. partial_series
           (final (cycle (env_with 14400000000 [series_with 7 True])
                    (example_poller\<lparr>partial_series := [7 \<mapsto> 3]\<rparr>))) 7 = Some m)"
proof -
  let ?p = "example_poller\<lparr>partial_series := [7 \<mapsto> 3]\<rparr>"
  let ?c = "env_with 14400000000 [series_with 7 False]"
  let ?d = "env_with 14400000000 [series_with 7 True]"
  have h1: "get_series_all ?c (snd (poll_window (prev_big_scan ?p) (prev_req_time ?p) (now ?c)))
              = Inr [series_with 7 False]"
    by (simp add: env_with_def)
  obtain q where h2: "cycle ?c ?p = Done q"
    by (simp add: cycle_def poll_window_def hours_def minutes_def env_with_def series_with_def
          example_poller_def process_series_def Let_def)
  have h3: "7 \<notin> seen_series ?p" by (simp add: example_poller_def)
  have h4: "list_all (\<lambda>s. sid s = 7 \<longrightarrow> not_received s) [series_with 7 False]"
    by (simp add: series_with_def not_received_def)
  have h5: "partial_series ?p 7 = Some 3" by simp
  from ledger_lifecycle [of ?c ?p "[series_with 7 False]" q 7 3] h1 h2 h3 h4
  have a: "partial_series q 7 = Some 4"
    by (simp add: series_with_def cnt_def)
  from ledger_lifecycle [of ?d ?p "[]" q 7 3] h5
  have b: "\<exists>m\<ge>3. partial_series (final (cycle ?d ?p)) 7 = Some m"
    by blast
  from h2 a b show ?thesis by blast
qed

text \<open>
  The claim as stated fails: after a big scan in which series 7 completes, the ledger
  still holds its count 3.
\<close>

theorem ledger_lifecycle_counterexample:
  "\<exists>q. cycle (env_with 14400000000 [series_with 7 True])
          (example_poller\<lparr>partial_series := [7 \<mapsto> 3]\<rparr>) = Done q \<and>
       fst (poll_window 0 100 14400000000) \<and> 7 \<in> seen_series q \<and>
       partial_series q 7 = Some 3"
  by (simp add: cycle_def poll_window_def hours_def minutes_def env_with_def series_with_def
        example_poller_def process_series_def Let_def)

text \<open>
  Claim C9 (cursor persistence), as the code has it. Without state file the poller starts
  from the defaults (last poll two hours ago, nothing seen); a state file holding both keys
  replaces them. No pass of the loop, big scan or not, writes the state file. When
  \<open>run\<close> is left, the \<open>finally\<close> block stores the time of the last big scan and the
  seen series, and this is what the next start loads.
\<close>

theorem cursor_persistence:
  "(\<exists>p0. init_poller t None = Inr p0 \<and> st_last_poll p0 = t - hours 2 \<and>
         seen_series p0 = {} \<and> disk p0 = None) \<and>
   (\<exists>p1. init_poller t (Some (Stored (Some lp) (Some ss))) = Inr p1 \<and>
         st_last_poll p1 = lp \<and> seen_series p1 = ss) \<and>
   disk (final (cycle c p)) = disk p \<and>
   (let r = snd (run_loop cs (p\<lparr>partial_series := Map.empty,
                                 prev_big_scan := st_last_poll p, prev_req_time := t\<rparr>))
    in disk (snd (run t cs p)) = Some (Stored (Some (prev_big_scan r)) (Some (seen_series r))) \<and>
       (\<exists>p2. init_poller t' (disk (snd (run t cs p))) = Inr p2 \<and>
             st_last_poll p2 = prev_big_scan r \<and> seen_series p2 = seen_series r))"
proof (intro conjI)
  show "\<exists>p0. init_poller t None = Inr p0 \<and> st_last_poll p0 = t - hours 2 \<and>
         seen_series p0 = {} \<and> disk p0 = None"
    by (simp add: init_poller_def init_state_from_disk_def)
  show "\<exists>p1. init_poller t (Some (Stored (Some lp) (Some ss))) = Inr p1 \<and>
         st_last_poll p1 = lp \<and> seen_series p1 = ss"
    by (simp add: init_poller_def init_state_from_disk_def)
  show "disk (final (cycle c p)) = disk p"
    by (rule cycle_final_fields)
  show "let r = snd (run_loop cs (p\<lparr>partial_series := Map.empty,
                                 prev_big_scan := st_last_poll p, prev_req_time := t\<rparr>))
    in disk (snd (run t cs p)) = Some (Stored (Some (prev_big_scan r)) (Some (seen_series r))) \<and>
       (\<exists>p2. init_poller t' (disk (snd (run t cs p))) = Inr p2 \<and>
             st_last_poll p2 = prev_big_scan r \<and> seen_series p2 = seen_series r)"
    by (simp add: run_def save_state_def init_poller_def init_state_from_disk_def Let_def
          split: prod.splits)
qed

text \<open>
  A big scan at 14400000000 that processes series 7 leaves the state file absent; leaving
  \<open>run\<close> after it stores that time and the set holding 7.
\<close>

theorem cursor_persistence_witness:
  "disk (final (cycle (env_with 14400000000 [series_with 7 True]) example_poller)) = None \<and>
   disk (snd (run 100 [env_with 14400000000 [series_with 7 True]] example_poller)) =
     Some (Stored (Some 14400000000) (Some {7}))"
proof -
  let ?c = "env_with 14400000000 [series_with 7 True]"
  note t = cursor_persistence [of 100 0 "{}" ?c example_poller "[?c]" 0]
  have r: "run_loop [?c] (example_poller\<lparr>partial_series := Map.empty,
              prev_big_scan := st_last_poll example_poller, prev_req_time := 100\<rparr>) =
           (KeyboardInterrupt,
            example_poller\<lparr>prev_req_time := 14400000000, prev_big_scan := 14400000000,
                            seen_series := {7}\<rparr>)"
    by (simp add: cycle_def poll_window_def hours_def minutes_def env_with_def series_with_def
          example_poller_def process_series_def Let_def)
  from t have a: "disk (final (cycle ?c example_poller)) = None"
    by (simp add: example_poller_def)
  from t r have b: "disk (snd (run 100 [?c] example_poller)) =
     Some (Stored (Some 14400000000) (Some {7}))"
    by (simp add: Let_def)
  from a b show ?thesis by blast
qed

text \<open>
  The claim as stated fails: after a completed big scan the state file is still absent.
\<close>

theorem cursor_persistence_counterexample:
  "\<exists>q. cycle (env_with 14400000000 [series_with 7 True]) example_poller = Done q \<and>
       fst (poll_window 0 100 14400000000) \<and> seen_series q = {7} \<and>
       prev_big_scan q = 14400000000 \<and> disk q = None"
  by (simp add: cycle_def poll_window_def hours_def minutes_def env_with_def series_with_def
        example_poller_def process_series_def Let_def)
section \<open>Lemmas on results-fetcher.py\<close>

subsection \<open>The rebuild of the seen state\<close>

lemma scan_results_sets:
  "seen (scan_results f d results st) =
     seen st \<union> {branch e |e. e \<in> set results \<and> has_url e \<and>
                              artifact_exists f d (basename (url_of e))} \<and>
   wip (scan_results f d results st) =
     wip st \<union> {branch e |e. e \<in> set results \<and> \<not> has_url e} \<and>
   dir (scan_results f d results st) = dir st \<and>
   out_url (scan_results f d results st) = out_url st"
proof (induction results arbitrary: st)
  case Nil
  then show ?case by simp
next
  case (Cons e results)
  show ?case
  proof (cases "has_url e")
    case False
    with Cons.IH [of "st\<lparr>wip := insert (branch e) (wip st)\<rparr>"] show ?thesis by auto
  next
    case True
    show ?thesis
    proof (cases "artifact_exists f d (basename (url_of e))")
      case False
      with True Cons.IH [of st] show ?thesis by auto
    next
      case ex: True
      with True Cons.IH [of "st\<lparr>seen := insert (branch e) (seen st)\<rparr>"] show ?thesis by auto
    qed
  qed
qed

lemma build_remote_absent:
  "build_remote cfg f r = Inr st \<Longrightarrow>
   f (path_join (path_join (out_dir cfg) (name r)) ''results.json'') = None \<Longrightarrow>
   seen st = {} \<and> wip st = {} \<and> dir st = path_join (out_dir cfg) (name r)"
  by (auto simp: build_remote_def Let_def split: if_splits)

lemma build_remote_sets:
  assumes "build_remote cfg f r = Inr st"
    and "f (path_join (path_join (out_dir cfg) (name r)) ''results.json'') = Some (Manifest results)"
  shows "seen st = {branch e |e. e \<in> set results \<and> has_url e \<and>
            artifact_exists f (path_join (out_dir cfg) (name r)) (basename (url_of e))}"
    and "wip st = {branch e |e. e \<in> set results \<and> \<not> has_url e}"
    and "dir st = path_join (out_dir cfg) (name r)"
proof -
  let ?d = "path_join (out_dir cfg) (name r)"
  let ?st0 = "\<lparr>seen = {}, wip = {}, dir = ?d, out_url = url_pfx cfg @ ''/'' @ name r\<rparr>"
  from assms have st: "st = scan_results f ?d results ?st0"
    by (auto simp: build_remote_def Let_def split: if_splits)
  from scan_results_sets [of f ?d results ?st0] st
  show "seen st = {branch e |e. e \<in> set results \<and> has_url e \<and>
            artifact_exists f ?d (basename (url_of e))}"
    and "wip st = {branch e |e. e \<in> set results \<and> \<not> has_url e}"
    and "dir st = ?d"
    by simp_all
qed

lemma build_remote_name:
  "name r = name r' \<Longrightarrow> build_remote cfg f r = build_remote cfg f r'"
  by (simp add: build_remote_def)

lemma build_seen_loop_lookup:
  "build_seen_loop cfg f remote_db sn = Inr sn' \<Longrightarrow>
   (\<forall>r\<in>set remote_db. \<exists>st. build_remote cfg f r = Inr st \<and> sn' (name r) = Some st) \<and>
   (\<forall>n. n \<notin> name ` set remote_db \<longrightarrow> sn' n = sn n)"
proof (induction remote_db arbitrary: sn)
  case Nil
  then show ?case by simp
next
  case (Cons r remote_db)
  from Cons.prems obtain st where st: "build_remote cfg f r = Inr st"
    and rest: "build_seen_loop cfg f remote_db (sn(name r \<mapsto> st)) = Inr sn'"
    by (auto split: sum.splits)
  note ih = Cons.IH [OF rest]
  have "\<exists>st'. build_remote cfg f r = Inr st' \<and> sn' (name r) = Some st'"
  proof (cases "name r \<in> name ` set remote_db")
    case True
    then obtain r' where r': "r' \<in> set remote_db" "name r' = name r" by auto
    with ih obtain st' where "build_remote cfg f r' = Inr st'" "sn' (name r') = Some st'"
      by blast
    with r'(2) build_remote_name [of r' r cfg f] show ?thesis by simp
  next
    case False
    with ih have "sn' (name r) = (sn(name r \<mapsto> st)) (name r)" by blast
    with st show ?thesis by simp
  qed
  moreover have "\<forall>n. n \<notin> name ` set (r # remote_db) \<longrightarrow> sn' n = sn n"
    using ih by auto
  ultimately show ?case using ih by auto
qed

lemma build_seen_lookup:
  "build_seen cfg f remote_db = Inr sn \<Longrightarrow> r \<in> set remote_db \<Longrightarrow>
   \<exists>st. build_remote cfg f r = Inr st \<and> sn (name r) = Some st"
  using build_seen_loop_lookup [of cfg f remote_db Map.empty sn] by (simp add: build_seen_def)

subsection \<open>The fetch phase\<close>

lemma fetch_remote_run_keeps:
  "seen_dict (final (fetch_remote_run nt rn rs w)) = seen_dict w \<and>
   fetched (final (fetch_remote_run nt rn rs w)) = fetched w \<and>
   trace (final (fetch_remote_run nt rn rs w)) = trace w"
  by (simp add: fetch_remote_run_def Let_def split: reply.splits)

lemma fetch_remote_run_cases:
  "(\<exists>e. fetch_remote_run nt rn rs w = Raised e w) \<or>
   (\<exists>x. fetch_remote_run nt rn rs w =
          Done (w\<lparr>fs := (fs w)(path_join (dir rs) (basename (url_of rn)) \<mapsto> Artifact x)\<rparr>))"
  by (auto simp: fetch_remote_run_def Let_def split: reply.splits)

lemma fetch_runs_seen_dict:
  "seen_dict (final (fetch_runs nt nm rs manifest w)) = seen_dict w"
proof (induction manifest arbitrary: w)
  case Nil
  then show ?case by simp
next
  case (Cons rn manifest)
  let ?w = "w\<lparr>trace := trace w @ [FetchRun nm (branch rn)]\<rparr>"
  from fetch_remote_run_cases [of nt rn rs ?w] show ?case
  proof
    assume "\<exists>e. fetch_remote_run nt rn rs ?w = Raised e ?w"
    then obtain e where "fetch_remote_run nt rn rs ?w = Raised e ?w" by blast
    then show ?thesis using Cons.IH by simp
  next
    assume "\<exists>x. fetch_remote_run nt rn rs ?w =
          Done (?w\<lparr>fs := (fs ?w)(path_join (dir rs) (basename (url_of rn)) \<mapsto> Artifact x)\<rparr>)"
    then obtain x where "fetch_remote_run nt rn rs ?w =
          Done (?w\<lparr>fs := (fs ?w)(path_join (dir rs) (basename (url_of rn)) \<mapsto> Artifact x)\<rparr>)"
      by blast
    then show ?thesis using Cons.IH by simp
  qed
qed

lemma fetch_runs_trace:
  "(\<forall>b. ev = FetchRun nm b \<longrightarrow> b \<in> seen rs) \<Longrightarrow>
   count_list (trace (final (fetch_runs nt nm rs manifest w))) ev = count_list (trace w) ev"
proof (induction manifest arbitrary: w)
  case Nil
  then show ?case by simp
next
  case (Cons rn manifest)
  note ih = Cons.IH [OF Cons.prems]
  show ?case
  proof (cases "branch rn \<in> seen rs")
    case True
    with ih show ?thesis by simp
  next
    case False
    with Cons.prems have ne: "ev \<noteq> FetchRun nm (branch rn)" by blast
    let ?w = "w\<lparr>trace := trace w @ [FetchRun nm (branch rn)]\<rparr>"
    have c: "count_list (trace ?w) ev = count_list (trace w) ev" using ne by simp
    from fetch_remote_run_cases [of nt rn rs ?w] show ?thesis
    proof
      assume "\<exists>e. fetch_remote_run nt rn rs ?w = Raised e ?w"
      then obtain e where "fetch_remote_run nt rn rs ?w = Raised e ?w" by blast
      then show ?thesis using ih c False by simp
    next
      assume "\<exists>x. fetch_remote_run nt rn rs ?w =
          Done (?w\<lparr>fs := (fs ?w)(path_join (dir rs) (basename (url_of rn)) \<mapsto> Artifact x)\<rparr>)"
      then obtain x where "fetch_remote_run nt rn rs ?w =
          Done (?w\<lparr>fs := (fs ?w)(path_join (dir rs) (basename (url_of rn)) \<mapsto> Artifact x)\<rparr>)"
        by blast
      then show ?thesis using ih c False by simp
    qed
  qed
qed

lemma fetch_runs_flag:
  "fetch_runs nt nm rs manifest w = Done w' \<Longrightarrow>
   fetched w' = (fetched w \<or> new_data rs manifest)"
proof (induction manifest arbitrary: w)
  case Nil
  then show ?case by (simp add: new_data_def)
next
  case (Cons rn manifest)
  show ?case
  proof (cases "branch rn \<in> seen rs")
    case True
    with Cons.prems have "fetch_runs nt nm rs manifest w = Done w'" by simp
    from Cons.IH [OF this] True show ?thesis by (simp add: new_data_def)
  next
    case False
    show ?thesis
    proof (cases "has_url rn")
      case nu: False
      with False Cons.prems
      have "fetch_runs nt nm rs manifest (w\<lparr>fetched := fetched w \<or> branch rn \<notin> wip rs\<rparr>) = Done w'"
        by simp
      from Cons.IH [OF this] False nu show ?thesis by (auto simp: new_data_def)
    next
      case True
      let ?w = "w\<lparr>trace := trace w @ [FetchRun nm (branch rn)]\<rparr>"
      from Cons.prems False True obtain w1 where
        w1: "fetch_remote_run nt rn rs ?w = Done w1"
        and rest: "fetch_runs nt nm rs manifest (w1\<lparr>fetched := True\<rparr>) = Done w'"
        by (auto split: outcome.splits)
      from Cons.IH [OF rest] have "fetched w'" by simp
      with False True show ?thesis by (simp add: new_data_def)
    qed
  qed
qed

lemma fetch_remote_seen_dict:
  "seen_dict (final (fetch_remote nt r w)) = seen_dict w"
proof (cases "get_manifest nt (manifest_url r)")
  case (Decoded manifest)
  show ?thesis
  proof (cases "seen_dict w (name r)")
    case None
    with Decoded show ?thesis by (simp add: fetch_remote_def)
  next
    case (Some rs)
    from fetch_runs_seen_dict [of nt "name r" rs manifest w] Decoded Some
    show ?thesis by (cases "fetch_runs nt (name r) rs manifest w") (simp_all add: fetch_remote_def)
  qed
qed (simp_all add: fetch_remote_def)

lemma fetch_remote_trace:
  assumes "\<forall>b rs. ev = FetchRun (name r) b \<longrightarrow> seen_dict w (name r) = Some rs \<longrightarrow> b \<in> seen rs"
  shows "count_list (trace (final (fetch_remote nt r w))) ev = count_list (trace w) ev"
proof (cases "get_manifest nt (manifest_url r)")
  case (Decoded manifest)
  show ?thesis
  proof (cases "seen_dict w (name r)")
    case None
    with Decoded show ?thesis by (simp add: fetch_remote_def)
  next
    case (Some rs)
    with assms have "\<forall>b. ev = FetchRun (name r) b \<longrightarrow> b \<in> seen rs" by simp
    from fetch_runs_trace [OF this, of nt manifest w] Decoded Some
    show ?thesis by (cases "fetch_runs nt (name r) rs manifest w") (simp_all add: fetch_remote_def)
  qed
qed (simp_all add: fetch_remote_def)

lemma fetch_remote_flag:
  assumes "fetch_remote nt r w = Done w'"
  shows "fetched w' = (fetched w \<or> signals nt w r)"
proof (cases "get_manifest nt (manifest_url r)")
  case (Decoded manifest)
  show ?thesis
  proof (cases "seen_dict w (name r)")
    case None
    with Decoded assms show ?thesis by (simp add: fetch_remote_def)
  next
    case (Some rs)
    with Decoded assms obtain w1 where w1: "fetch_runs nt (name r) rs manifest w = Done w1"
      and w': "w' = w1\<lparr>fs := (fs w1)(path_join (dir rs) ''results.json'' \<mapsto> Manifest manifest)\<rparr>"
      by (auto simp: fetch_remote_def split: outcome.splits)
    from fetch_runs_flag [OF w1] w' Decoded Some show ?thesis by (simp add: signals_def)
  qed
qed (use assms in \<open>simp_all add: fetch_remote_def signals_def\<close>)

lemma signals_cong: "seen_dict w = seen_dict w' \<Longrightarrow> signals nt w r = signals nt w' r"
  by (simp add: signals_def split: reply.splits)

lemma fetch_all_seen_dict:
  "seen_dict (final (fetch_all nt remote_db w)) = seen_dict w"
proof (induction remote_db arbitrary: w)
  case Nil
  then show ?case by simp
next
  case (Cons r remote_db)
  from fetch_remote_seen_dict [of nt r w] Cons.IH show ?case
    by (cases "fetch_remote nt r w") simp_all
qed

lemma fetch_all_trace:
  assumes "\<forall>n b rs. ev = FetchRun n b \<longrightarrow> seen_dict w n = Some rs \<longrightarrow> b \<in> seen rs"
  shows "count_list (trace (final (fetch_all nt remote_db w))) ev = count_list (trace w) ev"
  using assms
proof (induction remote_db arbitrary: w)
  case Nil
  then show ?case by simp
next
  case (Cons r remote_db)
  from Cons.prems
  have a: "\<forall>b rs. ev = FetchRun (name r) b \<longrightarrow> seen_dict w (name r) = Some rs \<longrightarrow> b \<in> seen rs"
    by blast
  note t = fetch_remote_trace [OF a, of nt]
  show ?case
  proof (cases "fetch_remote nt r w")
    case (Raised e w1)
    with t show ?thesis by simp
  next
    case (Done w1)
    with fetch_remote_seen_dict [of nt r w] have "seen_dict w1 = seen_dict w" by simp
    with Cons.prems
    have "\<forall>n b rs. ev = FetchRun n b \<longrightarrow> seen_dict w1 n = Some rs \<longrightarrow> b \<in> seen rs" by simp
    from Cons.IH [OF this] Done t show ?thesis by simp
  qed
qed

lemma fetch_all_flag:
  "fetch_all nt remote_db w = Done w' \<Longrightarrow>
   fetched w' = (fetched w \<or> list_ex (signals nt w) remote_db)"
proof (induction remote_db arbitrary: w)
  case Nil
  then show ?case by simp
next
  case (Cons r remote_db)
  from Cons.prems obtain w1 where w1: "fetch_remote nt r w = Done w1"
    and rest: "fetch_all nt remote_db w1 = Done w'"
    by (auto split: outcome.splits)
  from fetch_remote_seen_dict [of nt r w] w1 have "seen_dict w1 = seen_dict w" by simp
  then have "list_ex (signals nt w1) remote_db = list_ex (signals nt w) remote_db"
    using signals_cong [of w1 w nt] by (simp add: list_ex_iff)
  with Cons.IH [OF rest] fetch_remote_flag [OF w1] show ?case by auto
qed

subsection \<open>The atomic write\<close>

lemma tmp_differs: "path @ ''.new'' \<noteq> path"
  by simp

lemma write_json_atomic_steps_old_or_new:
  "\<forall>s\<in>set (write_json_atomic_steps path data f). s path = f path \<or> s path = Some data"
  by (simp add: write_json_atomic_steps_def Let_def)

lemma write_json_atomic_result:
  "write_json_atomic path data f path = Some data"
  by (simp add: write_json_atomic_def write_json_atomic_steps_def Let_def)

subsection \<open>One pass\<close>

lemma rebuild_step_keeps:
  "trace (final (rebuild_step cfg remote_db w)) = trace w \<and>
   fs (final (rebuild_step cfg remote_db w)) = fs w"
  by (simp add: rebuild_step_def split: sum.splits)

lemma rebuild_step_clears:
  "rebuild_step cfg remote_db w = Done w1 \<Longrightarrow> \<not> fetched w1"
  by (auto simp: rebuild_step_def split: if_splits sum.splits)

lemma main_cycle_done:
  assumes "main_cycle cfg remote_db nt w = Done w'"
  obtains w1 w2 where "rebuild_step cfg remote_db w = Done w1"
    and "fetch_all nt remote_db w1 = Done w2"
    and "publish_step cfg remote_db nt w2 = Done w'"
  using assms by (auto simp: main_cycle_def split: outcome.splits)

subsection \<open>Paths of snapshots and artifacts\<close>








subsection \<open>The seen state covers the snapshot\<close>


lemma build_remote_snapshot:
  "build_remote cfg f r = Inr rs \<Longrightarrow>
   f (path_join (path_join (out_dir cfg) (name r)) ''results.json'') = None \<or>
   (\<exists>m. f (path_join (path_join (out_dir cfg) (name r)) ''results.json'') = Some (Manifest m))"
  by (auto simp: build_remote_def Let_def split: if_splits option.splits json_file.splits)



subsection \<open>Fetching without new data\<close>





subsection \<open>The invariant of the loop\<close>


lemma publish_step_keeps:
  "fetched (final (publish_step cfg remote_db nt w)) = fetched w \<and>
   seen_dict (final (publish_step cfg remote_db nt w)) = seen_dict w \<and>
   count_list (trace (final (publish_step cfg remote_db nt w))) (FetchRun n b) =
     count_list (trace w) (FetchRun n b)"
  by (simp add: publish_step_def split: sum.splits)





subsection \<open>The seen state across passes\<close>

lemma main_cycle_unflagged_seen_dict:
  assumes "\<not> fetched w"
  shows "seen_dict (final (main_cycle cfg remote_db nt w)) = seen_dict w"
proof -
  from assms have r: "rebuild_step cfg remote_db w = Done w" by (simp add: rebuild_step_def)
  show ?thesis
  proof (cases "fetch_all nt remote_db w")
    case (Raised ex w2)
    with r fetch_all_seen_dict [of nt remote_db w] show ?thesis by (simp add: main_cycle_def)
  next
    case (Done w2)
    with r fetch_all_seen_dict [of nt remote_db w] publish_step_keeps [of cfg remote_db nt w2]
    show ?thesis by (simp add: main_cycle_def)
  qed
qed

lemma main_cycle_rebuild_seen_dict:
  assumes "fetched w" and "main_cycle cfg remote_db nt w = Done w'"
  shows "build_seen cfg (fs w) remote_db = Inr (seen_dict w')"
proof -
  from assms(2) obtain w1 w2 where w1: "rebuild_step cfg remote_db w = Done w1"
    and w2: "fetch_all nt remote_db w1 = Done w2"
    and p: "publish_step cfg remote_db nt w2 = Done w'"
    by (rule main_cycle_done)
  from w1 assms(1) have "build_seen cfg (fs w) remote_db = Inr (seen_dict w1)"
    by (auto simp: rebuild_step_def split: sum.splits)
  moreover have "seen_dict w2 = seen_dict w1"
    using fetch_all_seen_dict [of nt remote_db w1] w2 by simp
  moreover have "seen_dict w' = seen_dict w2"
    using publish_step_keeps [of cfg remote_db nt w2] p by simp
  ultimately show ?thesis by simp
qed

lemma build_remote_seen_iff:
  assumes "build_remote cfg f r = Inr st"
  shows "k \<in> seen st \<longleftrightarrow>
     (\<exists>results. f (path_join (path_join (out_dir cfg) (name r)) ''results.json'') =
                  Some (Manifest results) \<and>
        (\<exists>e\<in>set results. branch e = k \<and> has_url e \<and>
           artifact_exists f (path_join (out_dir cfg) (name r)) (basename (url_of e))))"
proof -
  from build_remote_snapshot [OF assms] show ?thesis
  proof
    assume n: "f (path_join (path_join (out_dir cfg) (name r)) ''results.json'') = None"
    from build_remote_absent [OF assms n] n show ?thesis by simp
  next
    assume "\<exists>m. f (path_join (path_join (out_dir cfg) (name r)) ''results.json'') =
                  Some (Manifest m)"
    then obtain m where m: "f (path_join (path_join (out_dir cfg) (name r)) ''results.json'') =
                  Some (Manifest m)" by blast
    from build_remote_sets(1) [OF assms m] m show ?thesis by auto
  qed
qed

lemma build_remote_disjoint_iff:
  assumes "build_remote cfg f r = Inr st"
    and "f (path_join (path_join (out_dir cfg) (name r)) ''results.json'') = Some (Manifest results)"
  shows "seen st \<inter> wip st = {} \<longleftrightarrow>
     \<not> (\<exists>e1\<in>set results. \<exists>e2\<in>set results. branch e1 = branch e2 \<and> has_url e1 \<and>
          artifact_exists f (path_join (out_dir cfg) (name r)) (basename (url_of e1)) \<and>
          \<not> has_url e2)"
  using build_remote_sets(1,2) [OF assms] by auto

subsection \<open>A pass that an exception ends\<close>

lemma main_cycle_raised_no_publish:
  assumes "main_cycle cfg remote_db nt w = Raised ex w'"
  shows "count_list (trace w') Publish = count_list (trace w) Publish"
proof (cases "rebuild_step cfg remote_db w")
  case (Raised e1 w1)
  with assms rebuild_step_keeps [of cfg remote_db w] show ?thesis
    by (simp add: main_cycle_def)
next
  case (Done w1)
  with rebuild_step_keeps [of cfg remote_db w] have t1: "trace w1 = trace w" by simp
  note t2 = fetch_all_trace [of Publish w1 nt remote_db]
  show ?thesis
  proof (cases "fetch_all nt remote_db w1")
    case (Raised e2 w2)
    with Done assms t1 t2 show ?thesis by (simp add: main_cycle_def)
  next
    case w2: (Done w2)
    with Done assms have p: "publish_step cfg remote_db nt w2 = Raised ex w'"
      by (simp add: main_cycle_def)
    then have "trace w' = trace w2"
      by (auto simp: publish_step_def split: if_splits sum.splits)
    with w2 t1 t2 show ?thesis by simp
  qed
qed

subsection \<open>Unfolding the concrete inputs\<close>

lemmas example_defs =
  example_cfg_def remote_a_def remote_b_def run1_def run2_def state_a_def state_b_def
  fresh_world_def idle_world_def net_of_def net_a_def disk0_def disk1_def
  run3_def run1w_def disk2_def net_feed_down_def

lemmas fetcher_defs =
  main_cycle_def rebuild_step_def publish_step_def fetch_remote_def fetch_remote_run_def
  build_seen_def build_remote_def build_combined_def write_json_atomic_def
  write_json_atomic_steps_def artifact_exists_def has_url_def url_of_def path_join_def
  basename_def Let_def
section \<open>Properties of results-fetcher.py\<close>

text \<open>
  Claim C10 (a failed decode changes nothing). When the body of a source's manifest is not
  JSON, \<open>fetch_remote\<close> returns with the state it was called in: the same files (the
  snapshot is not rewritten), the same seen and work-in-progress sets, no artifact fetched
  (the same trace) and the same value of \<open>fetcher.fetched\<close>.
\<close>

theorem failed_decode_changes_nothing:
  "get_manifest nt (manifest_url r) = NotJson \<Longrightarrow> fetch_remote nt r w = Done w"
  by (simp add: fetch_remote_def)

text \<open>
  With a malformed manifest of remote A, \<open>fetch_remote\<close> returns the state it got.
\<close>

theorem failed_decode_changes_nothing_witness:
  "get_manifest (net_a NotJson) (manifest_url remote_a) = NotJson \<and>
   fetch_remote (net_a NotJson) remote_a idle_world = Done idle_world"
proof -
  have h: "get_manifest (net_a NotJson) (manifest_url remote_a) = NotJson"
    by (simp add: net_a_def remote_a_def)
  from failed_decode_changes_nothing [OF h, of idle_world] h show ?thesis by blast
qed

text \<open>
  Claim C3 (per-source error containment), as the code has it. A manifest that is not JSON
  makes the pass skip that source only: the loop over the sources goes on with the
  remaining ones from the same state. An exception of \<open>requests.get\<close> for a manifest is
  not caught: it leaves the loop over the sources and the pass with the state unchanged,
  and the remaining sources are not tried. In the poller, an exception of the patchwork
  request leaves the pass in the same way.
\<close>

theorem parse_error_contained:
  "(get_manifest nt (manifest_url r) = NotJson \<longrightarrow>
      fetch_all nt (r # remote_db) w = fetch_all nt remote_db w) \<and>
   (get_manifest nt (manifest_url r) = NetFail \<longrightarrow>
      fetch_all nt (r # remote_db) w = Raised ConnectionError w \<and>
      (\<not> fetched w \<longrightarrow> main_cycle cfg (r # remote_db) nt w = Raised ConnectionError w)) \<and>
   (get_series_all c (snd (poll_window (prev_big_scan p) (prev_req_time p) (now c))) = Inl e \<longrightarrow>
      cycle c p = Raised e p)"
  by (auto simp: fetch_remote_def main_cycle_def rebuild_step_def cycle_def Let_def
        split: prod.splits)

text \<open>
  With remotes A and B: a malformed manifest of A leaves what the pass does for B; a
  failed request for A's manifest ends the pass, and a failed patchwork request ends the
  pass of the poller.
\<close>

theorem parse_error_contained_witness:
  "get_manifest (net_a NotJson) (manifest_url remote_a) = NotJson \<and>
   fetch_all (net_a NotJson) [remote_a, remote_b] idle_world =
     fetch_all (net_a NotJson) [remote_b] idle_world \<and>
   get_manifest (net_a NetFail) (manifest_url remote_a) = NetFail \<and>
   \<not> fetched idle_world \<and>
   main_cycle example_cfg [remote_a, remote_b] (net_a NetFail) idle_world =
     Raised ConnectionError idle_world \<and>
   cycle \<lparr>now = 200, get_series_all = (\<lambda>since. Inl ConnectionError)\<rparr> example_poller =
     Raised ConnectionError example_poller"
proof -
  let ?c = "\<lparr>now = 200, get_series_all = (\<lambda>since. Inl ConnectionError)\<rparr>"
  have h1: "get_manifest (net_a NotJson) (manifest_url remote_a) = NotJson"
    by (simp add: net_a_def remote_a_def)
  have h2: "get_manifest (net_a NetFail) (manifest_url remote_a) = NetFail"
    by (simp add: net_a_def remote_a_def)
  have h3: "\<not> fetched idle_world" by (simp add: idle_world_def)
  have h4: "get_series_all ?c (snd (poll_window (prev_big_scan example_poller)
              (prev_req_time example_poller) (now ?c))) = Inl ConnectionError"
    by simp
  from parse_error_contained [of "net_a NotJson" remote_a "[remote_b]" idle_world example_cfg
      ?c example_poller ConnectionError] h1
  have a: "fetch_all (net_a NotJson) [remote_a, remote_b] idle_world =
     fetch_all (net_a NotJson) [remote_b] idle_world"
    by blast
  from parse_error_contained [of "net_a NetFail" remote_a "[remote_b]" idle_world example_cfg
      ?c example_poller ConnectionError] h2 h3 h4
  have b: "main_cycle example_cfg [remote_a, remote_b] (net_a NetFail) idle_world =
     Raised ConnectionError idle_world"
    and c: "cycle ?c example_poller = Raised ConnectionError example_poller"
    by blast+
  from h1 a h2 h3 b c show ?thesis by blast
qed

text \<open>
  The claim as stated fails: when the request for A's manifest fails, the pass over A
  and B ends with \<open>ConnectionError\<close> and nothing written, although the pass over B alone
  completes and writes B's snapshot.
\<close>

theorem error_containment_counterexample:
  "main_cycle example_cfg [remote_a, remote_b] (net_a NetFail) idle_world =
     Raised ConnectionError idle_world \<and>
   (\<exists>w'. main_cycle example_cfg [remote_b] (net_a NetFail) idle_world = Done w' \<and>
         fs w' ''out/B/results.json'' = Some (Manifest [run2]))"
  by (simp add: main_cycle_def rebuild_step_def publish_step_def fetch_remote_def
        build_combined_def write_json_atomic_def write_json_atomic_steps_def
        idle_world_def net_a_def remote_a_def remote_b_def example_cfg_def state_a_def
        state_b_def run2_def has_url_def url_of_def path_join_def Let_def)

text \<open>
  Claim C4 (seen-state rebuild), as the code has it. After a rebuild the state of a
  source has the source's directory; without snapshot file both sets are empty; with a
  snapshot, \<open>seen\<close> (complete) holds the branches of the entries that have an artifact
  reference whose file exists, and \<open>wip\<close> the branches of the entries without artifact
  reference. An entry with a reference whose file is missing adds its branch to neither
  set.
\<close>

theorem rebuild_classifies:
  "build_seen cfg f remote_db = Inr sn \<longrightarrow> r \<in> set remote_db \<longrightarrow>
     (\<exists>st. sn (name r) = Some st \<and> dir st = path_join (out_dir cfg) (name r) \<and>
        (f (path_join (dir st) ''results.json'') = None \<longrightarrow> seen st = {} \<and> wip st = {}) \<and>
        (\<forall>results. f (path_join (dir st) ''results.json'') = Some (Manifest results) \<longrightarrow>
           seen st = {branch e |e. e \<in> set results \<and> has_url e \<and>
                        artifact_exists f (dir st) (basename (url_of e))} \<and>
           wip st = {branch e |e. e \<in> set results \<and> \<not> has_url e}))"
proof (intro impI)
  assume b: "build_seen cfg f remote_db = Inr sn" and r: "r \<in> set remote_db"
  from build_seen_lookup [OF b r] obtain st where
    st: "build_remote cfg f r = Inr st" "sn (name r) = Some st" by blast
  have d: "dir st = path_join (out_dir cfg) (name r)"
    using st(1) scan_results_sets [of f "path_join (out_dir cfg) (name r)"]
    by (auto simp: build_remote_def Let_def split: if_splits option.splits json_file.splits)
  have "f (path_join (dir st) ''results.json'') = None \<longrightarrow> seen st = {} \<and> wip st = {}"
    using build_remote_absent [OF st(1)] d by simp
  moreover have "\<forall>results. f (path_join (dir st) ''results.json'') = Some (Manifest results) \<longrightarrow>
           seen st = {branch e |e. e \<in> set results \<and> has_url e \<and>
                        artifact_exists f (dir st) (basename (url_of e))} \<and>
           wip st = {branch e |e. e \<in> set results \<and> \<not> has_url e}"
    using build_remote_sets [OF st(1)] d by simp
  ultimately show "\<exists>st. sn (name r) = Some st \<and> dir st = path_join (out_dir cfg) (name r) \<and>
        (f (path_join (dir st) ''results.json'') = None \<longrightarrow> seen st = {} \<and> wip st = {}) \<and>
        (\<forall>results. f (path_join (dir st) ''results.json'') = Some (Manifest results) \<longrightarrow>
           seen st = {branch e |e. e \<in> set results \<and> has_url e \<and>
                        artifact_exists f (dir st) (basename (url_of e))} \<and>
           wip st = {branch e |e. e \<in> set results \<and> \<not> has_url e})"
    using st(2) d by - (rule exI [of _ st], simp)
qed

text \<open>
  The snapshot of A lists \<open>br1\<close> with a fetched artifact and \<open>br2\<close> without
  reference: \<open>br1\<close> is complete and \<open>br2\<close> is work in progress.
\<close>

theorem rebuild_classifies_witness:
  "\<exists>sn. build_seen example_cfg disk1 [remote_a] = Inr sn \<and> remote_a \<in> set [remote_a] \<and>
     (\<exists>st. sn ''A'' = Some st \<and> dir st = ''out/A'' \<and>
           disk1 (path_join (dir st) ''results.json'') = Some (Manifest [run1, run2]) \<and>
           seen st = {''br1''} \<and> wip st = {''br2''})"
proof -
  obtain sn where b: "build_seen example_cfg disk1 [remote_a] = Inr sn"
    by (simp add: example_defs fetcher_defs)
  have r: "remote_a \<in> set [remote_a]" by simp
  from rebuild_classifies [of example_cfg disk1 "[remote_a]" sn remote_a] b r
  obtain st where st: "sn (name remote_a) = Some st"
    "dir st = path_join (out_dir example_cfg) (name remote_a)"
    "\<forall>results. disk1 (path_join (dir st) ''results.json'') = Some (Manifest results) \<longrightarrow>
           seen st = {branch e |e. e \<in> set results \<and> has_url e \<and>
                        artifact_exists disk1 (dir st) (basename (url_of e))} \<and>
           wip st = {branch e |e. e \<in> set results \<and> \<not> has_url e}"
    by blast
  have d: "dir st = ''out/A''" using st(2) by (simp add: example_defs path_join_def)
  have m: "disk1 (path_join (dir st) ''results.json'') = Some (Manifest [run1, run2])"
    using d by (simp add: disk1_def path_join_def)
  have u: "has_url run1" "\<not> has_url run2"
    "artifact_exists disk1 ''out/A'' (basename (url_of run1))"
    by (simp_all add: example_defs fetcher_defs)
  from st(3) m have "seen st = {branch e |e. e \<in> set [run1, run2] \<and> has_url e \<and>
                        artifact_exists disk1 (dir st) (basename (url_of e))}"
    and "wip st = {branch e |e. e \<in> set [run1, run2] \<and> \<not> has_url e}"
    by blast+
  with u d have "seen st = {branch run1}" "wip st = {branch run2}"
    by auto
  then have "seen st = {''br1''}" "wip st = {''br2''}"
    by (simp_all add: run1_def run2_def)
  with st(1) d m b r show ?thesis by (simp add: remote_a_def)
qed

text \<open>
  The claim as stated fails: \<open>br1\<close> is recorded with an artifact reference, its file
  is missing, and the rebuild puts it in neither set.
\<close>

theorem rebuild_partition_counterexample:
  "\<exists>sn st. build_seen example_cfg disk0 [remote_a] = Inr sn \<and> sn ''A'' = Some st \<and>
     disk0 ''out/A/results.json'' = Some (Manifest [run1]) \<and> url run1 \<noteq> None \<and>
     disk0 ''out/A/run1.json'' = None \<and>
     ''br1'' \<notin> seen st \<and> ''br1'' \<notin> wip st"
  by (simp add: example_defs fetcher_defs)

text \<open>
  Claim C5 (dirty-gated atomic publish), as the code has it. In a pass that runs to its
  end, \<open>fetcher.fetched\<close> is clear when the fetches start and is set after them exactly
  when some source signals new data (a manifest listing an unseen branch that has an
  artifact to fetch or is not known as work in progress); \<open>write_json_atomic\<close> is called
  once in that case and not at all otherwise, and then the files are those after the
  fetches with the combined view written by \<open>write_json_atomic\<close>. A pass that an
  exception ends publishes nothing, whether a source has signalled new data or not. In
  every file system that can be observed while \<open>write_json_atomic\<close> runs, the published
  path holds its old content or the complete new one, and it holds the new one in the end.
\<close>

theorem dirty_gated_atomic_publish:
  "(main_cycle cfg remote_db nt w = Done w' \<longrightarrow>
      (let w1 = final (rebuild_step cfg remote_db w);
           w2 = final (fetch_all nt remote_db w1);
           dirty = list_ex (signals nt w1) remote_db
       in \<not> fetched w1 \<and> fetched w2 = dirty \<and>
          count_list (trace w') Publish =
            count_list (trace w) Publish + (if dirty then 1 else 0) \<and>
          (if dirty
           then \<exists>results. build_combined cfg nt (fs w2) remote_db = Inr results \<and>
                  fs w' = write_json_atomic (path_join (out_dir cfg) (combined cfg))
                            (Combined results) (fs w2)
           else fs w' = fs w2))) \<and>
   (main_cycle cfg remote_db nt w = Raised ex w' \<longrightarrow>
      count_list (trace w') Publish = count_list (trace w) Publish) \<and>
   (\<forall>s\<in>set (write_json_atomic_steps path data f). s path = f path \<or> s path = Some data) \<and>
   write_json_atomic path data f = last (write_json_atomic_steps path data f) \<and>
   write_json_atomic path data f path = Some data"
proof (intro conjI impI)
  assume mc: "main_cycle cfg remote_db nt w = Done w'"
  from mc obtain w1 w2 where w1: "rebuild_step cfg remote_db w = Done w1"
    and w2: "fetch_all nt remote_db w1 = Done w2"
    and p: "publish_step cfg remote_db nt w2 = Done w'"
    by (rule main_cycle_done)
  let ?dirty = "list_ex (signals nt w1) remote_db"
  have nf: "\<not> fetched w1" using w1 by (rule rebuild_step_clears)
  have fl: "fetched w2 = ?dirty" using fetch_all_flag [OF w2] nf by simp
  have t1: "trace w1 = trace w" using rebuild_step_keeps [of cfg remote_db w] w1 by simp
  have t2: "count_list (trace w2) Publish = count_list (trace w1) Publish"
    using fetch_all_trace [of Publish w1 nt remote_db] w2 by simp
  have t3: "count_list (trace w') Publish =
      count_list (trace w2) Publish + (if ?dirty then 1 else 0)"
    using p fl by (auto simp: publish_step_def split: if_splits sum.splits)
  have f3: "if ?dirty
           then \<exists>results. build_combined cfg nt (fs w2) remote_db = Inr results \<and>
                  fs w' = write_json_atomic (path_join (out_dir cfg) (combined cfg))
                            (Combined results) (fs w2)
           else fs w' = fs w2"
    using p fl by (auto simp: publish_step_def split: if_splits sum.splits)
  from nf fl t1 t2 t3 f3 w1 w2
  show "let w1 = final (rebuild_step cfg remote_db w);
           w2 = final (fetch_all nt remote_db w1);
           dirty = list_ex (signals nt w1) remote_db
       in \<not> fetched w1 \<and> fetched w2 = dirty \<and>
          count_list (trace w') Publish =
            count_list (trace w) Publish + (if dirty then 1 else 0) \<and>
          (if dirty
           then \<exists>results. build_combined cfg nt (fs w2) remote_db = Inr results \<and>
                  fs w' = write_json_atomic (path_join (out_dir cfg) (combined cfg))
                            (Combined results) (fs w2)
           else fs w' = fs w2)"
    by (simp add: Let_def)
next
  assume "main_cycle cfg remote_db nt w = Raised ex w'"
  then show "count_list (trace w') Publish = count_list (trace w) Publish"
    by (rule main_cycle_raised_no_publish)
next
  show "\<forall>s\<in>set (write_json_atomic_steps path data f). s path = f path \<or> s path = Some data"
    by (rule write_json_atomic_steps_old_or_new)
next
  show "write_json_atomic path data f = last (write_json_atomic_steps path data f)"
    by (simp add: write_json_atomic_def)
next
  show "write_json_atomic path data f path = Some data"
    by (rule write_json_atomic_result)
qed

text \<open>
  A fresh start with the manifest of A listing \<open>br2\<close> without artifact publishes once
  (an empty combined view, the branch feed being empty); with a malformed manifest nothing
  is published and nothing written; with the branch feed unreachable the pass ends with
  \<open>ConnectionError\<close> and nothing published; the steps of a write over existing files keep
  the published path absent until it holds the new view.
\<close>

theorem dirty_gated_atomic_publish_witness:
  "(\<exists>w'. main_cycle example_cfg [remote_a] (net_of [run2]) fresh_world = Done w' \<and>
         count_list (trace w') Publish = 1 \<and>
         fs w' ''out/all.json'' = Some (Combined [])) \<and>
   (\<exists>w'. main_cycle example_cfg [remote_a] (net_a NotJson) fresh_world = Done w' \<and>
         count_list (trace w') Publish = 0 \<and> fs w' = Map.empty) \<and>
   (\<exists>w'. main_cycle example_cfg [remote_a] (net_feed_down [run2]) fresh_world =
           Raised ConnectionError w' \<and>
         count_list (trace w') Publish = 0) \<and>
   list_all (\<lambda>s. s ''out/all.json'' = disk1 ''out/all.json'' \<or>
                 s ''out/all.json'' = Some (Combined []))
     (write_json_atomic_steps ''out/all.json'' (Combined []) disk1)"
proof -
  let ?p = "''out/all.json''"
  obtain w' where a: "main_cycle example_cfg [remote_a] (net_of [run2]) fresh_world = Done w'"
    by (simp add: example_defs fetcher_defs)
  obtain v' where b: "main_cycle example_cfg [remote_a] (net_a NotJson) fresh_world = Done v'"
    by (simp add: example_defs fetcher_defs)
  obtain u' where c: "main_cycle example_cfg [remote_a] (net_feed_down [run2]) fresh_world =
      Raised ConnectionError u'"
    by (simp add: example_defs fetcher_defs)
  have r: "final (rebuild_step example_cfg [remote_a] fresh_world) =
      fresh_world\<lparr>seen_dict := [''A'' \<mapsto> state_a], fetched := False\<rparr>"
    by (simp add: example_defs fetcher_defs)
  have s1: "list_ex (signals (net_of [run2])
              (fresh_world\<lparr>seen_dict := [''A'' \<mapsto> state_a], fetched := False\<rparr>)) [remote_a]"
    by (simp add: signals_def new_data_def example_defs fetcher_defs)
  have s2: "\<not> list_ex (signals (net_a NotJson)
              (fresh_world\<lparr>seen_dict := [''A'' \<mapsto> state_a], fetched := False\<rparr>)) [remote_a]"
    by (simp add: signals_def new_data_def example_defs fetcher_defs)
  note t1 = dirty_gated_atomic_publish [of example_cfg "[remote_a]" "net_of [run2]"
      fresh_world w' ConnectionError ?p "Combined []" disk1]
  note t2 = dirty_gated_atomic_publish [of example_cfg "[remote_a]" "net_a NotJson"
      fresh_world v' ConnectionError ?p "Combined []" disk1]
  note t3 = dirty_gated_atomic_publish [of example_cfg "[remote_a]" "net_feed_down [run2]"
      fresh_world u' ConnectionError ?p "Combined []" disk1]
  from t1 a r s1 have c1: "count_list (trace w') Publish = 1"
    by (simp add: Let_def fresh_world_def)
  from t1 a r s1 obtain results where
    "build_combined example_cfg (net_of [run2])
       (fs (final (fetch_all (net_of [run2]) [remote_a]
          (fresh_world\<lparr>seen_dict := [''A'' \<mapsto> state_a], fetched := False\<rparr>)))) [remote_a] =
     Inr results"
    "fs w' = write_json_atomic (path_join (out_dir example_cfg) (combined example_cfg))
                            (Combined results)
       (fs (final (fetch_all (net_of [run2]) [remote_a]
          (fresh_world\<lparr>seen_dict := [''A'' \<mapsto> state_a], fetched := False\<rparr>))))"
    by (auto simp: Let_def)
  then have c2: "fs w' ?p = Some (Combined [])"
    by (simp add: example_defs fetcher_defs)
  from t2 b r s2 have c3: "count_list (trace v') Publish = 0"
    by (simp add: Let_def fresh_world_def)
  from t2 b r s2 have "fs v' = fs (final (fetch_all (net_a NotJson) [remote_a]
          (fresh_world\<lparr>seen_dict := [''A'' \<mapsto> state_a], fetched := False\<rparr>)))"
    by (simp add: Let_def)
  then have c4: "fs v' = Map.empty"
    by (simp add: example_defs fetcher_defs)
  from t3 c have c6: "count_list (trace u') Publish = 0"
    by (simp add: fresh_world_def)
  from t1 have c5: "list_all (\<lambda>s. s ?p = disk1 ?p \<or> s ?p = Some (Combined []))
     (write_json_atomic_steps ?p (Combined []) disk1)"
    by (simp add: list_all_iff)
  from a c1 c2 b c3 c4 c c6 c5 show ?thesis by blast
qed

text \<open>
  The claim as stated fails. On a fresh start the manifest of A lists \<open>br1\<close> with an
  artifact: the source signals new data, the artifact is fetched and written and
  \<open>fetcher.fetched\<close> is set, but the request for the branch feed in \<open>build_combined\<close>
  fails, so the pass ends with \<open>ConnectionError\<close> and no combined view is published.
  The restarted process, presented with the same manifest and a working feed, finds
  \<open>br1\<close> complete, sees no new data and does not publish it either.
\<close>

theorem dirty_gate_counterexample:
  "\<exists>w'. main_cycle example_cfg [remote_a] (net_feed_down [run1]) fresh_world =
          Raised ConnectionError w' \<and>
     list_ex (signals (net_feed_down [run1])
       (final (rebuild_step example_cfg [remote_a] fresh_world))) [remote_a] \<and>
     fetched w' \<and> trace w' = [FetchRun ''A'' ''br1''] \<and>
     fs w' ''out/A/run1.json'' = Some (Artifact 0) \<and>
     fs w' ''out/all.json'' = None \<and>
     (\<exists>w''. main_cycle example_cfg [remote_a] (net_of [run1])
              (w'\<lparr>fetched := True, seen_dict := Map.empty\<rparr>) = Done w'' \<and>
        trace w'' = [FetchRun ''A'' ''br1''] \<and> fs w'' ''out/all.json'' = None)"
  by (simp add: example_defs fetcher_defs signals_def new_data_def)



text \<open>
  Claim C7 (seen-state transitions), as the code has it. After a rebuild the sets \<open>seen\<close>
  and \<open>wip\<close> of a source are disjoint exactly when the snapshot lists no branch both with
  an artifact reference whose file exists and without artifact reference. A pass that
  starts with \<open>fetcher.fetched\<close> clear leaves the seen state as it is. A pass that starts
  with it set rebuilds: afterwards a branch is complete exactly when the snapshot that
  the former pass has left (the latest manifest) lists it with an artifact reference
  whose file exists; a complete branch that the latest manifest has dropped, or lists
  without reference, is complete no more.
\<close>

theorem seen_state_transitions:
  "(build_seen cfg f remote_db = Inr sn \<longrightarrow> r \<in> set remote_db \<longrightarrow>
    f (path_join (path_join (out_dir cfg) (name r)) ''results.json'') = Some (Manifest results) \<longrightarrow>
      (\<exists>st. sn (name r) = Some st \<and>
         (seen st \<inter> wip st = {} \<longleftrightarrow>
          \<not> (\<exists>e1\<in>set results. \<exists>e2\<in>set results. branch e1 = branch e2 \<and> has_url e1 \<and>
               artifact_exists f (path_join (out_dir cfg) (name r)) (basename (url_of e1)) \<and>
               \<not> has_url e2)))) \<and>
   (\<not> fetched w \<longrightarrow> seen_dict (final (main_cycle cfg remote_db nt w)) = seen_dict w) \<and>
   (fetched w \<longrightarrow> main_cycle cfg remote_db nt w = Done w' \<longrightarrow> r \<in> set remote_db \<longrightarrow>
      (\<exists>st. seen_dict w' (name r) = Some st \<and>
         (\<forall>k. k \<in> seen st \<longleftrightarrow>
            (\<exists>m. fs w (path_join (path_join (out_dir cfg) (name r)) ''results.json'') =
                    Some (Manifest m) \<and>
               (\<exists>e\<in>set m. branch e = k \<and> has_url e \<and>
                  artifact_exists (fs w) (path_join (out_dir cfg) (name r))
                    (basename (url_of e)))))))"
proof (intro conjI impI)
  assume b: "build_seen cfg f remote_db = Inr sn" and r: "r \<in> set remote_db"
    and m: "f (path_join (path_join (out_dir cfg) (name r)) ''results.json'') =
              Some (Manifest results)"
  from build_seen_lookup [OF b r] obtain st where
    st: "build_remote cfg f r = Inr st" "sn (name r) = Some st" by blast
  from build_remote_disjoint_iff [OF st(1) m] st(2)
  show "\<exists>st. sn (name r) = Some st \<and>
         (seen st \<inter> wip st = {} \<longleftrightarrow>
          \<not> (\<exists>e1\<in>set results. \<exists>e2\<in>set results. branch e1 = branch e2 \<and> has_url e1 \<and>
               artifact_exists f (path_join (out_dir cfg) (name r)) (basename (url_of e1)) \<and>
               \<not> has_url e2))"
    by - (rule exI [of _ st], simp)
next
  assume "\<not> fetched w"
  then show "seen_dict (final (main_cycle cfg remote_db nt w)) = seen_dict w"
    by (rule main_cycle_unflagged_seen_dict)
next
  assume f: "fetched w" and mc: "main_cycle cfg remote_db nt w = Done w'"
    and r: "r \<in> set remote_db"
  from main_cycle_rebuild_seen_dict [OF f mc]
  have b: "build_seen cfg (fs w) remote_db = Inr (seen_dict w')" .
  from build_seen_lookup [OF b r] obtain st where
    st: "build_remote cfg (fs w) r = Inr st" "seen_dict w' (name r) = Some st" by blast
  from build_remote_seen_iff [OF st(1)] st(2)
  show "\<exists>st. seen_dict w' (name r) = Some st \<and>
         (\<forall>k. k \<in> seen st \<longleftrightarrow>
            (\<exists>m. fs w (path_join (path_join (out_dir cfg) (name r)) ''results.json'') =
                    Some (Manifest m) \<and>
               (\<exists>e\<in>set m. branch e = k \<and> has_url e \<and>
                  artifact_exists (fs w) (path_join (out_dir cfg) (name r))
                    (basename (url_of e)))))"
    by - (rule exI [of _ st], simp)
qed

text \<open>
  The snapshot of A listing \<open>br1\<close> (fetched) and \<open>br2\<close> (no reference) gives disjoint
  sets; a pass without rebuild keeps the seen state; a pass with rebuild has \<open>br1\<close>
  complete and \<open>br2\<close> not.
\<close>

theorem seen_state_transitions_witness:
  "(\<exists>sn st. build_seen example_cfg disk1 [remote_a] = Inr sn \<and> sn ''A'' = Some st \<and>
      seen st \<inter> wip st = {}) \<and>
   \<not> fetched idle_world \<and>
   seen_dict (final (main_cycle example_cfg [remote_a, remote_b] (net_of [run2]) idle_world)) =
     seen_dict idle_world \<and>
   fetched (fresh_world\<lparr>fs := disk1\<rparr>) \<and>
   (\<exists>w' st. main_cycle example_cfg [remote_a] (net_of [run3]) (fresh_world\<lparr>fs := disk1\<rparr>) =
        Done w' \<and>
      seen_dict w' ''A'' = Some st \<and> ''br1'' \<in> seen st \<and> ''br2'' \<notin> seen st)"
proof -
  let ?w = "fresh_world\<lparr>fs := disk1\<rparr>"
  let ?snap = "path_join (path_join (out_dir example_cfg) (name remote_a)) ''results.json''"
  let ?d = "path_join (out_dir example_cfg) (name remote_a)"
  obtain sn where b: "build_seen example_cfg disk1 [remote_a] = Inr sn"
    by (simp add: example_defs fetcher_defs)
  have r: "remote_a \<in> set [remote_a]" by simp
  have m: "disk1 ?snap = Some (Manifest [run1, run2])"
    by (simp add: example_defs fetcher_defs)
  have u: "has_url run1" "\<not> has_url run2" "branch run1 \<noteq> branch run2"
    "artifact_exists disk1 ?d (basename (url_of run1))" "name remote_a = ''A''"
    "branch run1 = ''br1''" "branch run2 = ''br2''"
    by (simp_all add: example_defs fetcher_defs)
  have nd: "\<not> (\<exists>e1\<in>set [run1, run2]. \<exists>e2\<in>set [run1, run2]. branch e1 = branch e2 \<and>
              has_url e1 \<and> artifact_exists disk1 ?d (basename (url_of e1)) \<and> \<not> has_url e2)"
    using u by auto
  from seen_state_transitions [where cfg = example_cfg and f = disk1 and remote_db = "[remote_a]"
      and sn = sn and r = remote_a and results = "[run1, run2]" and w = idle_world
      and nt = "net_of [run2]" and w' = idle_world] b r m nd u(5)
  have c1: "\<exists>st. sn ''A'' = Some st \<and> seen st \<inter> wip st = {}"
    by auto
  have nf: "\<not> fetched idle_world" by (simp add: idle_world_def)
  from seen_state_transitions [where cfg = example_cfg and f = disk1
      and remote_db = "[remote_a, remote_b]"
      and sn = sn and r = remote_a and results = "[run1, run2]" and w = idle_world
      and nt = "net_of [run2]" and w' = idle_world] nf
  have c2: "seen_dict (final (main_cycle example_cfg [remote_a, remote_b] (net_of [run2])
                idle_world)) = seen_dict idle_world"
    by blast
  have f: "fetched ?w" by (simp add: fresh_world_def)
  obtain w' where mc: "main_cycle example_cfg [remote_a] (net_of [run3]) ?w = Done w'"
    by (simp add: example_defs fetcher_defs)
  have m': "fs ?w ?snap = Some (Manifest [run1, run2])"
    using m by simp
  from seen_state_transitions [where cfg = example_cfg and f = disk1 and remote_db = "[remote_a]"
      and sn = sn and r = remote_a and results = "[run1, run2]" and w = ?w
      and nt = "net_of [run3]" and w' = w'] f mc r
  obtain st where st: "seen_dict w' (name remote_a) = Some st"
    "\<forall>k. k \<in> seen st \<longleftrightarrow>
            (\<exists>m. fs ?w ?snap = Some (Manifest m) \<and>
               (\<exists>e\<in>set m. branch e = k \<and> has_url e \<and>
                  artifact_exists (fs ?w) ?d (basename (url_of e))))"
    by blast
  from st(2) m' u have "''br1'' \<in> seen st" "''br2'' \<notin> seen st"
    by auto
  with st(1) u(5) mc have c3: "\<exists>w' st. main_cycle example_cfg [remote_a] (net_of [run3]) ?w =
        Done w' \<and> seen_dict w' ''A'' = Some st \<and> ''br1'' \<in> seen st \<and> ''br2'' \<notin> seen st"
    by auto
  from b c1 nf c2 f c3 show ?thesis by blast
qed

text \<open>
  The claim as stated fails. With \<open>br1\<close> fetched and recorded, a pass whose manifest
  lists only the new branch \<open>br3\<close> still has \<open>br1\<close> complete, rewrites the snapshot
  and asks for a rebuild; after the next pass \<open>br1\<close> is neither complete nor work in
  progress. And a snapshot that lists \<open>br1\<close> with its fetched artifact and again without
  reference puts \<open>br1\<close> in both sets.
\<close>

theorem seen_state_counterexample:
  "(\<exists>w1 w2 s1 s2.
      main_cycle example_cfg [remote_a] (net_of [run3]) (fresh_world\<lparr>fs := disk1\<rparr>) = Done w1 \<and>
      seen_dict w1 ''A'' = Some s1 \<and> ''br1'' \<in> seen s1 \<and>
      main_cycle example_cfg [remote_a] (net_of [run3]) w1 = Done w2 \<and>
      seen_dict w2 ''A'' = Some s2 \<and> ''br1'' \<notin> seen s2 \<and> ''br1'' \<notin> wip s2) \<and>
   (\<exists>sn st. build_seen example_cfg disk2 [remote_a] = Inr sn \<and> sn ''A'' = Some st \<and>
      ''br1'' \<in> seen st \<and> ''br1'' \<in> wip st)"
  by (simp add: example_defs fetcher_defs)

end
